theory Spec2Isabelle
  imports Main "HOL-Library.Sublist"
begin

section \<open>Python values, errors and text\<close>

text \<open>
  The release script \<^verbatim>\<open>op-releaser.py\<close> is embedded function by function. Conventions:
  \<^item> A Python \<^verbatim>\<open>int\<close> is an \<^typ>\<open>int\<close> (unbounded).
  \<^item> A Python \<^verbatim>\<open>str\<close> is a \<^typ>\<open>string\<close> holding the UTF-8 encoding of the text, so
    every ASCII character is one \<^typ>\<open>char\<close>. Substring search and replacement with
    ASCII patterns agree with Python's on such strings; positions count chars of the
    encoding, and the source only compares positions of one string with each other.
  \<^item> An exception is a value of type \<open>error\<close>; a function that can raise returns
    \<open>error + 'a\<close>, with \<open>Inl\<close> for the exception.
  \<^item> The platform is a POSIX system with a UTF-8 locale: text files are decoded and
    encoded as UTF-8 and a line feed is written as it is.
  \<^item> Failures of the operating system (a file that cannot be read or written, a shell
    that cannot be started) and limits of the interpreter on the size of numbers in
    conversions are outside the model.
\<close>

datatype error =
    Exception string        \<comment> \<open>\<^verbatim>\<open>raise Exception(msg)\<close>, with the message\<close>
  | KeyError string         \<comment> \<open>a missing dictionary key\<close>
  | TypeError               \<comment> \<open>subscripting a value that is not a dictionary with a string\<close>
  | AttributeError          \<comment> \<open>a method or attribute the value does not have\<close>
  | ValueError string       \<comment> \<open>\<^verbatim>\<open>int(s)\<close> on a string that is no decimal integer\<close>
  | UnicodeDecodeError      \<comment> \<open>\<^verbatim>\<open>bytes.decode("UTF8")\<close> on ill-formed input\<close>
  | FileNotFoundError       \<comment> \<open>reading a file that does not exist\<close>
  | InvalidGitRepositoryError  \<comment> \<open>\<^verbatim>\<open>Repo(path)\<close> where there is no repository\<close>
  | LibraryError string     \<comment> \<open>an error raised inside toml or GitPython\<close>

text \<open>The names the specification gives to the exceptions the source raises itself.\<close>

definition MissingManifest :: error where
  "MissingManifest = Exception ''no ./info.toml file''"

definition VersionNotFound :: "string \<Rightarrow> error" where
  "VersionNotFound pv_str = Exception (''Could not find `'' @ pv_str @ ''` in info.toml'')"

definition AmbiguousVersion :: "string \<Rightarrow> error" where
  "AmbiguousVersion pv_str = Exception (''More than one occurance of '' @ pv_str @ '' -- bailing'')"

definition MalformedVersion :: error where
  "MalformedVersion = Exception ''expected version to be of the form X.Y.Z''"

definition InvalidBumpKind :: "string \<Rightarrow> error" where
  "InvalidBumpKind bump_level =
     Exception (''bump_level provided was '' @ bump_level @ '', which is an invalid choice.'')"

definition NotARepository :: error where
  "NotARepository = Exception ''not in a git repo!''"

subsection \<open>\<^verbatim>\<open>str(n)\<close> and \<^verbatim>\<open>int(s)\<close>\<close>

definition digit_of :: "nat \<Rightarrow> char" where
  "digit_of d = char_of (48 + d)"

definition digit_val :: "char \<Rightarrow> nat option" where
  "digit_val c = (let n = of_char c :: nat in if 48 \<le> n \<and> n \<le> 57 then Some (n - 48) else None)"

fun nat_digits :: "nat \<Rightarrow> string" where
  "nat_digits n = (if n < 10 then [digit_of n] else nat_digits (n div 10) @ [digit_of (n mod 10)])"

declare nat_digits.simps [simp del]

definition py_str :: "int \<Rightarrow> string" where
  "py_str i = (if i < 0 then CHR ''-'' # nat_digits (nat (- i)) else nat_digits (nat i))"

text \<open>
  \<^verbatim>\<open>int(s)\<close> in base ten, for a string of ASCII characters: surrounding white space (tab,
  line feed, vertical tab, form feed, carriage return, space) is stripped, one sign may
  come first, and the digits may be grouped by single underscores. In a string with
  other characters Python also takes the decimal digits and spaces of other scripts;
  the model does not.
\<close>

definition is_space :: "char \<Rightarrow> bool" where
  "is_space c = (c \<in> set [CHR 0x09, CHR 0x0A, CHR 0x0B, CHR 0x0C, CHR 0x0D, CHR '' ''])"

definition strip :: "string \<Rightarrow> string" where
  "strip s = rev (dropWhile is_space (rev (dropWhile is_space s)))"

fun digits_value :: "nat \<Rightarrow> string \<Rightarrow> nat option" where
  "digits_value acc [] = Some acc"
| "digits_value acc (c # cs) =
     (if c = CHR ''_'' then
        (case cs of
           [] \<Rightarrow> None
         | d # ds \<Rightarrow> (case digit_val d of
                        None \<Rightarrow> None
                      | Some v \<Rightarrow> digits_value (10 * acc + v) ds))
      else (case digit_val c of
              None \<Rightarrow> None
            | Some v \<Rightarrow> digits_value (10 * acc + v) cs))"

definition nat_of_digits :: "string \<Rightarrow> nat option" where
  "nat_of_digits s =
     (case s of
        [] \<Rightarrow> None
      | c # cs \<Rightarrow> (case digit_val c of None \<Rightarrow> None | Some v \<Rightarrow> digits_value v cs))"

text \<open>A string of decimal digits only.\<close>

definition all_digits :: "string \<Rightarrow> bool" where
  "all_digits s = (\<forall>c \<in> set s. digit_val c \<noteq> None)"

definition py_int :: "string \<Rightarrow> error + int" where
  "py_int s =
     (let t = strip s;
          (neg, body) = (case t of
                           [] \<Rightarrow> (False, t)
                         | c # cs \<Rightarrow> if c = CHR ''-'' then (True, cs)
                                    else if c = CHR ''+'' then (False, cs)
                                    else (False, t))
      in case nat_of_digits body of
           None \<Rightarrow> Inl (ValueError s)
         | Some n \<Rightarrow> Inr (if neg then - int n else int n))"

subsection \<open>\<^verbatim>\<open>sep.join(parts)\<close> and \<^verbatim>\<open>s.split(sep)\<close>\<close>

fun str_join :: "string \<Rightarrow> string list \<Rightarrow> string" where
  "str_join sep [] = []"
| "str_join sep [p] = p"
| "str_join sep (p # q # ps) = p @ sep @ str_join sep (q # ps)"

text \<open>\<^verbatim>\<open>s.split(sep)\<close> for a separator of one character, as the source calls it.\<close>

fun str_split :: "char \<Rightarrow> string \<Rightarrow> string list" where
  "str_split sep [] = [[]]"
| "str_split sep (c # cs) =
     (if c = sep then [] # str_split sep cs
      else (case str_split sep cs of
              [] \<Rightarrow> [[c]]
            | p # ps \<Rightarrow> (c # p) # ps))"

section \<open>Versions\<close>

type_synonym version = "int \<times> int \<times> int"

definition version_to_str :: "version \<Rightarrow> string" where
  "version_to_str ver = (case ver of (v0, v1, v2) \<Rightarrow> str_join ''.'' (map py_str [v0, v1, v2]))"

definition version_from_str :: "string \<Rightarrow> error + version" where
  "version_from_str version =
     (let parts = str_split CHR ''.'' version in
      if length parts \<noteq> 3 then Inl MalformedVersion
      else (case py_int (parts ! 0) of
              Inl e \<Rightarrow> Inl e
            | Inr v0 \<Rightarrow> (case py_int (parts ! 1) of
                          Inl e \<Rightarrow> Inl e
                        | Inr v1 \<Rightarrow> (case py_int (parts ! 2) of
                                      Inl e \<Rightarrow> Inl e
                                    | Inr v2 \<Rightarrow> Inr (v0, v1, v2)))))"

definition bump_version :: "version \<Rightarrow> string \<Rightarrow> error + version" where
  "bump_version ver bump_level =
     (case ver of (v0, v1, v2) \<Rightarrow>
        if bump_level = ''major'' then Inr (v0 + 1, 0, 0)
        else if bump_level = ''minor'' then Inr (v0, v1 + 1, 0)
        else if bump_level = ''patch'' then Inr (v0, v1, v2 + 1)
        else Inl (InvalidBumpKind bump_level))"

section \<open>Searching and replacing text\<close>

text \<open>\<^verbatim>\<open>sub in s\<close>, \<^verbatim>\<open>s.find(sub)\<close> and \<^verbatim>\<open>s.rfind(sub)\<close>: a scan of \<open>s\<close> from the left.\<close>

fun str_contains :: "string \<Rightarrow> string \<Rightarrow> bool" where
  "str_contains sub [] = (sub = [])"
| "str_contains sub (c # cs) = (prefix sub (c # cs) \<or> str_contains sub cs)"

fun find_from :: "nat \<Rightarrow> string \<Rightarrow> string \<Rightarrow> int" where
  "find_from i sub [] = (if sub = [] then int i else - 1)"
| "find_from i sub (c # cs) = (if prefix sub (c # cs) then int i else find_from (Suc i) sub cs)"

definition str_find :: "string \<Rightarrow> string \<Rightarrow> int" where
  "str_find s sub = find_from 0 sub s"

fun rfind_from :: "nat \<Rightarrow> string \<Rightarrow> string \<Rightarrow> int" where
  "rfind_from i sub [] = (if sub = [] then int i else - 1)"
| "rfind_from i sub (c # cs) =
     (let r = rfind_from (Suc i) sub cs in
      if r \<noteq> - 1 then r else if prefix sub (c # cs) then int i else - 1)"

definition str_rfind :: "string \<Rightarrow> string \<Rightarrow> int" where
  "str_rfind s sub = rfind_from 0 sub s"

text \<open>
  \<^verbatim>\<open>s.replace(old, new)\<close> replaces every occurrence of \<open>old\<close>, found from the left and not
  overlapping; with an empty \<open>old\<close>, \<open>new\<close> is put before every character and at the end.
\<close>

function replace_from :: "string \<Rightarrow> string \<Rightarrow> string \<Rightarrow> string" where
  "replace_from old new [] = []"
| "replace_from old new (c # cs) =
     (if old \<noteq> [] \<and> prefix old (c # cs)
      then new @ replace_from old new (drop (length old) (c # cs))
      else c # replace_from old new cs)"
  by pat_completeness auto
termination
  by (relation "measure (\<lambda>(old, new, s). length s)") auto

definition str_replace :: "string \<Rightarrow> string \<Rightarrow> string \<Rightarrow> string" where
  "str_replace s old new =
     (if old = [] then new @ concat (map (\<lambda>c. c # new) s) else replace_from old new s)"

text \<open>
  The positions at which \<open>sub\<close> stands in \<open>s\<close>, in increasing order: what "occurs", "occurs
  once" and "occurs more than once" mean in the statements below.
\<close>

definition occurs_at :: "string \<Rightarrow> string \<Rightarrow> nat \<Rightarrow> bool" where
  "occurs_at sub s i = (i \<le> length s \<and> take (length sub) (drop i s) = sub)"

definition occurrences :: "string \<Rightarrow> string \<Rightarrow> nat list" where
  "occurrences sub s = filter (occurs_at sub s) [0..<Suc (length s)]"

text \<open>The text \<open>s\<close> with the \<open>n\<close> characters from position \<open>i\<close> replaced by \<open>new\<close>.\<close>

definition replace_at :: "string \<Rightarrow> nat \<Rightarrow> nat \<Rightarrow> string \<Rightarrow> string" where
  "replace_at s i n new = take i s @ new @ drop (i + n) s"

subsection \<open>\<^verbatim>\<open>bytes.decode("UTF8")\<close>\<close>

text \<open>
  Strict decoding accepts exactly the well-formed byte sequences of UTF-8 (no overlong
  forms, no surrogates, nothing above U+10FFFF). A decoded text is kept in its encoding,
  so decoding returns the bytes it accepts.
\<close>

definition cont_byte :: "nat \<Rightarrow> bool" where
  "cont_byte b = (0x80 \<le> b \<and> b \<le> 0xBF)"

fun utf8_ok :: "nat list \<Rightarrow> bool" where
  "utf8_ok [] = True"
| "utf8_ok (b # bs) =
     (if b < 0x80 then utf8_ok bs
      else if 0xC2 \<le> b \<and> b \<le> 0xDF then
        (case bs of
           c1 # r \<Rightarrow> cont_byte c1 \<and> utf8_ok r
         | _ \<Rightarrow> False)
      else if 0xE0 \<le> b \<and> b \<le> 0xEF then
        (case bs of
           c1 # c2 # r \<Rightarrow>
             cont_byte c1 \<and> (if b = 0xE0 then 0xA0 \<le> c1 else True) \<and> (if b = 0xED then c1 \<le> 0x9F else True) \<and>
             cont_byte c2 \<and> utf8_ok r
         | _ \<Rightarrow> False)
      else if 0xF0 \<le> b \<and> b \<le> 0xF4 then
        (case bs of
           c1 # c2 # c3 # r \<Rightarrow>
             cont_byte c1 \<and> (if b = 0xF0 then 0x90 \<le> c1 else True) \<and> (if b = 0xF4 then c1 \<le> 0x8F else True) \<and>
             cont_byte c2 \<and> cont_byte c3 \<and> utf8_ok r
         | _ \<Rightarrow> False)
      else False)"

definition decode_utf8 :: "string \<Rightarrow> error + string" where
  "decode_utf8 bs = (if utf8_ok (map of_char bs) then Inr bs else Inl UnicodeDecodeError)"

subsection \<open>The text of a file\<close>

text \<open>
  A file opened as text is read with universal newlines: every CR LF and every other CR
  becomes LF. \<open>text_of bs\<close> is what \<^verbatim>\<open>Path.read_text()\<close> gives for a file with the bytes
  \<open>bs\<close>: the bytes decoded strictly, then the line ends translated.
\<close>

fun universal_newlines :: "string \<Rightarrow> string" where
  "universal_newlines [] = []"
| "universal_newlines [c] = (if c = CHR 0x0D then [CHR 0x0A] else [c])"
| "universal_newlines (c # d # cs) =
     (if c = CHR 0x0D \<and> d = CHR 0x0A then CHR 0x0A # universal_newlines cs
      else if c = CHR 0x0D then CHR 0x0A # universal_newlines (d # cs)
      else c # universal_newlines (d # cs))"

definition text_of :: "string \<Rightarrow> error + string" where
  "text_of bs = (case decode_utf8 bs of Inl e \<Rightarrow> Inl e | Inr s \<Rightarrow> Inr (universal_newlines s))"

section \<open>The world the script runs in\<close>

text \<open>
  What \<^verbatim>\<open>toml.load\<close> returns: strings, integers, booleans, other scalars (floats and
  dates, kept as their text), arrays and tables. A table is a list of keys with values.
\<close>

datatype pyval =
    PStr string
  | PInt int
  | PBool bool
  | PScalar string
  | PList "pyval list"
  | PDict "(string \<times> pyval) list"

text \<open>\<^verbatim>\<open>v[key]\<close> with a string key: only a dictionary can be subscripted so.\<close>

fun subscript :: "pyval \<Rightarrow> string \<Rightarrow> error + pyval" where
  "subscript (PDict kvs) k = (case map_of kvs k of None \<Rightarrow> Inl (KeyError k) | Some v \<Rightarrow> Inr v)"
| "subscript _ k = Inl TypeError"

text \<open>
  A repository, as far as the script and the statements below look at it: whether it is
  bare (it has no working tree) and how many commits its history has. The directory the
  script runs in holds a repository or none.
\<close>

datatype repo = Repo (bare: bool) (commits: nat)

datatype gitdir = NoGitDir | GitDir repo

datatype git_cmd = Add string | Commit string | Tag string

record process =
  stdout :: string                \<comment> \<open>the bytes the process wrote\<close>
  exit_status :: int              \<comment> \<open>the status the process exits with\<close>
  returncode :: "int option"      \<comment> \<open>\<^verbatim>\<open>proc.returncode\<close> as the script reads it: \<open>None\<close> until
                                      the process has been waited for\<close>

text \<open>
  The collaborators outside the script are parameters: the repository of the working
  directory, the TOML parser (\<^verbatim>\<open>toml.load\<close> opens the file itself: the parameter maps the
  bytes of the file to what it returns or raises), which git commands fail, and the
  process that \<^verbatim>\<open>./build.sh release\<close> becomes. Git and the build act on the repository and
  the working directory; they are taken to leave \<^verbatim>\<open>info.toml\<close> as it is.
\<close>

record env =
  workdir :: gitdir
  toml_load :: "string \<Rightarrow> error + pyval"
  git_run :: "git_cmd \<Rightarrow> error option"
  build_sh :: process

text \<open>
  \<^verbatim>\<open>Repo(os.curdir)\<close> of GitPython: the repository of the directory, and
  \<open>InvalidGitRepositoryError\<close> where there is none. A Python reference can be \<^verbatim>\<open>None\<close>, which
  the script tests for, so the result is an option; the constructor never gives \<^verbatim>\<open>None\<close>.
\<close>

definition open_repo :: "env \<Rightarrow> error + repo option" where
  "open_repo env = (case workdir env of NoGitDir \<Rightarrow> Inl InvalidGitRepositoryError | GitDir r \<Rightarrow> Inr (Some r))"

text \<open>
  The steps of a release, and what a run does to the world, in order. \<open>Call\<close> and
  \<open>Raised\<close> record that \<^verbatim>\<open>run_release\<close> calls a step and that the step raises; the other
  events are the script's actions on the file \<^verbatim>\<open>info.toml\<close>, the repository, the build
  process and the log.
\<close>

datatype step = CheckRepo | ReadVersion | Bump | WriteManifest | CommitVersion | Build | CommitArtifacts

datatype event =
    Call step
  | Raised step error
  | RepoOpen                      \<comment> \<open>\<^verbatim>\<open>Repo(os.curdir)\<close>\<close>
  | PathExists                    \<comment> \<open>\<^verbatim>\<open>info_toml.exists()\<close>\<close>
  | ReadText                      \<comment> \<open>the file is opened and read\<close>
  | WriteText string              \<comment> \<open>\<^verbatim>\<open>info_toml.write_text(s)\<close>\<close>
  | Git git_cmd                   \<comment> \<open>\<^verbatim>\<open>repo.git.add\<close>, \<^verbatim>\<open>commit\<close>, \<^verbatim>\<open>tag\<close>\<close>
  | Popen string                  \<comment> \<open>\<^verbatim>\<open>subprocess.Popen\<close>\<close>
  | Log string                    \<comment> \<open>\<^verbatim>\<open>logging.info(msg)\<close>\<close>
  | LogRead pyval pyval           \<comment> \<open>the message of the reader, with the name and version it formats\<close>

record world =
  manifest :: "string option"     \<comment> \<open>the bytes of \<^verbatim>\<open>./info.toml\<close>, \<open>None\<close> when there is no such file\<close>
  trace :: "event list"

type_synonym 'a prog = "world \<Rightarrow> (error + 'a) \<times> world"

definition ret :: "'a \<Rightarrow> 'a prog" where
  "ret x w = (Inr x, w)"

definition raise :: "error \<Rightarrow> 'a prog" where
  "raise e w = (Inl e, w)"

definition lift :: "error + 'a \<Rightarrow> 'a prog" where
  "lift r w = (r, w)"

definition seq :: "'a prog \<Rightarrow> ('a \<Rightarrow> 'b prog) \<Rightarrow> 'b prog" where
  "seq m f w = (case m w of (Inl e, w') \<Rightarrow> (Inl e, w') | (Inr x, w') \<Rightarrow> f x w')"

definition emit :: "event \<Rightarrow> world \<Rightarrow> world" where
  "emit ev w = w\<lparr>trace := trace w @ [ev]\<rparr>"

definition effect :: "event \<Rightarrow> unit prog" where
  "effect ev w = (Inr (), emit ev w)"

definition path_exists :: "bool prog" where
  "path_exists w = (Inr (manifest w \<noteq> None), emit PathExists w)"

text \<open>The file is opened and its bytes are read.\<close>

definition read_bytes :: "string prog" where
  "read_bytes w = (case manifest w of None \<Rightarrow> (Inl FileNotFoundError, w) | Some bs \<Rightarrow> (Inr bs, emit ReadText w))"

text \<open>
  \<^verbatim>\<open>info_toml.read_text()\<close> gives the text of the bytes read, or raises where they are not
  UTF-8. \<^verbatim>\<open>info_toml.write_text(s)\<close> makes the encoding of \<open>s\<close> the content of the file.
\<close>

definition read_text :: "string prog" where
  "read_text = seq read_bytes (\<lambda>bs. lift (text_of bs))"

definition write_text :: "string \<Rightarrow> unit prog" where
  "write_text s w = (Inr (), emit (WriteText s) (w\<lparr>manifest := Some s\<rparr>))"

section \<open>The functions of the script\<close>

definition read_info_toml_version :: "env \<Rightarrow> version prog" where
  "read_info_toml_version env =
     seq path_exists (\<lambda>exists.
     if \<not> exists then raise MissingManifest
     else
     seq read_bytes (\<lambda>text.
     seq (lift (toml_load env text)) (\<lambda>info.
     seq (lift (subscript info ''meta'')) (\<lambda>meta.
     seq (lift (subscript meta ''version'')) (\<lambda>version.
     seq (lift (subscript info ''meta'')) (\<lambda>meta.
     seq (lift (subscript meta ''name'')) (\<lambda>plugin_name.
     seq (effect (LogRead plugin_name version)) (\<lambda>_.
     lift (case version of PStr s \<Rightarrow> version_from_str s | _ \<Rightarrow> Inl AttributeError)))))))))"

definition update_info_toml_version :: "version \<Rightarrow> version \<Rightarrow> unit prog" where
  "update_info_toml_version prior_ver new_ver =
     seq path_exists (\<lambda>exists.
     if \<not> exists then raise MissingManifest
     else
     seq read_text (\<lambda>info_str.
     let pv_str = version_to_str prior_ver in
     if \<not> str_contains pv_str info_str then raise (VersionNotFound pv_str)
     else if str_find info_str pv_str \<noteq> str_rfind info_str pv_str then raise (AmbiguousVersion pv_str)
     else
     seq (write_text (str_replace info_str pv_str (version_to_str new_ver))) (\<lambda>_.
     effect (Log (''Wrote new info.toml with updated version: '' @ version_to_str new_ver)))))"

definition git_get_repo :: "env \<Rightarrow> repo option prog" where
  "git_get_repo env = seq (effect RepoOpen) (\<lambda>_. lift (open_repo env))"

definition git_check_in_repo :: "env \<Rightarrow> bool prog" where
  "git_check_in_repo env =
     seq (git_get_repo env) (\<lambda>repo.
     ret (case repo of None \<Rightarrow> False | Some r \<Rightarrow> if bare r then False else True))"

text \<open>\<^verbatim>\<open>repo.git.cmd(...)\<close>: \<^verbatim>\<open>None\<close> has no attribute \<^verbatim>\<open>git\<close>; a git command can fail.\<close>

definition repo_git :: "env \<Rightarrow> repo option \<Rightarrow> git_cmd \<Rightarrow> unit prog" where
  "repo_git env repo cmd =
     (case repo of
        None \<Rightarrow> raise AttributeError
      | Some r \<Rightarrow> seq (effect (Git cmd)) (\<lambda>_.
                  case git_run env cmd of None \<Rightarrow> ret () | Some e \<Rightarrow> raise e))"

definition git_commit_version :: "env \<Rightarrow> version \<Rightarrow> version \<Rightarrow> unit prog" where
  "git_commit_version env prior_ver ver =
     seq (git_get_repo env) (\<lambda>repo.
     seq (repo_git env repo (Add ''info.toml'')) (\<lambda>_.
     seq (repo_git env repo (Commit (''Version: '' @ version_to_str ver))) (\<lambda>_.
     seq (repo_git env repo (Tag (version_to_str ver))) (\<lambda>_.
     effect (Log (''Committed version bump from '' @ version_to_str prior_ver @ '' to '' @
                  version_to_str ver))))))"

definition build_plugin :: "env \<Rightarrow> version \<Rightarrow> unit prog" where
  "build_plugin env ver =
     seq (effect (Popen ''./build.sh release'')) (\<lambda>_.
     let proc = build_sh env in
     seq (lift (decode_utf8 (stdout proc))) (\<lambda>out.
     seq (effect (Log out)) (\<lambda>_.
     effect (Log (''Built plugin: '' @ version_to_str ver @ ''; return code: '' @
                  (case returncode proc of None \<Rightarrow> ''None'' | Some rc \<Rightarrow> py_str rc))))))"

definition git_commit_new_release :: "env \<Rightarrow> version \<Rightarrow> unit prog" where
  "git_commit_new_release env ver =
     seq (git_get_repo env) (\<lambda>repo.
     seq (repo_git env repo (Add ''./*.op'')) (\<lambda>_.
     seq (repo_git env repo (Commit (''Release: '' @ version_to_str ver))) (\<lambda>_.
     effect (Log (''Committed build for version: '' @ version_to_str ver)))))"

text \<open>A step of \<^verbatim>\<open>run_release\<close>: the call is recorded, and so is the exception if it raises.\<close>

definition run_step :: "step \<Rightarrow> 'a prog \<Rightarrow> 'a prog" where
  "run_step s m w =
     (case m (emit (Call s) w) of
        (Inl e, w') \<Rightarrow> (Inl e, emit (Raised s e) w')
      | (Inr x, w') \<Rightarrow> (Inr x, w'))"

definition run_release :: "env \<Rightarrow> string \<Rightarrow> unit prog" where
  "run_release env bump_level =
     seq (run_step CheckRepo
            (seq (git_check_in_repo env) (\<lambda>in_repo.
             if \<not> in_repo then raise NotARepository else ret ()))) (\<lambda>_.
     seq (run_step ReadVersion (read_info_toml_version env)) (\<lambda>prior_ver.
     seq (run_step Bump (lift (bump_version prior_ver bump_level))) (\<lambda>ver.
     seq (run_step WriteManifest (update_info_toml_version prior_ver ver)) (\<lambda>_.
     seq (run_step CommitVersion (git_commit_version env prior_ver ver)) (\<lambda>_.
     seq (run_step Build (build_plugin env ver)) (\<lambda>_.
     run_step CommitArtifacts (git_commit_new_release env ver)))))))"

text \<open>
  The check at the start of \<^verbatim>\<open>run_release\<close>, on its own: the call of \<^verbatim>\<open>git_check_in_repo\<close>
  and the raise when it returns \<^verbatim>\<open>False\<close>.
\<close>

definition require_repo :: "env \<Rightarrow> unit prog" where
  "require_repo env =
     seq (git_check_in_repo env) (\<lambda>in_repo.
     if \<not> in_repo then raise NotARepository else ret ())"

subsection \<open>The state machine of the specification\<close>

text \<open>
  The specification describes the orchestrator as a linear state machine without
  branching or retry, from \<open>Start\<close> through the reading, the bump, the writing, the commit
  of the version and the build to the commit of the artifacts, which is \<open>Done\<close>; a step
  that fails leads to \<open>Aborted\<close>, with the error. Here it is with the check of the
  repository as its first transition. A transition executes one step function of the
  script, on the world as the last transition left it. \<open>Done\<close> and \<open>Aborted\<close> are final: the
  machine stays there and the world stays as it is.
\<close>

datatype phase =
    Start
  | RepoChecked
  | VersionRead version
  | VersionBumped version version
  | ManifestWritten version version
  | VersionCommitted version
  | Built version
  | Done
  | Aborted step error

definition attempt :: "step \<Rightarrow> 'a prog \<Rightarrow> ('a \<Rightarrow> phase) \<Rightarrow> world \<Rightarrow> phase \<times> world" where
  "attempt s m next w =
     (case run_step s m w of
        (Inl e, w') \<Rightarrow> (Aborted s e, w')
      | (Inr x, w') \<Rightarrow> (next x, w'))"

fun advance :: "env \<Rightarrow> string \<Rightarrow> phase \<times> world \<Rightarrow> phase \<times> world" where
  "advance env bump_level (Start, w) =
     attempt CheckRepo (require_repo env) (\<lambda>_. RepoChecked) w"
| "advance env bump_level (RepoChecked, w) =
     attempt ReadVersion (read_info_toml_version env) VersionRead w"
| "advance env bump_level (VersionRead prior_ver, w) =
     attempt Bump (lift (bump_version prior_ver bump_level)) (VersionBumped prior_ver) w"
| "advance env bump_level (VersionBumped prior_ver ver, w) =
     attempt WriteManifest (update_info_toml_version prior_ver ver) (\<lambda>_. ManifestWritten prior_ver ver) w"
| "advance env bump_level (ManifestWritten prior_ver ver, w) =
     attempt CommitVersion (git_commit_version env prior_ver ver) (\<lambda>_. VersionCommitted ver) w"
| "advance env bump_level (VersionCommitted ver, w) =
     attempt Build (build_plugin env ver) (\<lambda>_. Built ver) w"
| "advance env bump_level (Built ver, w) =
     attempt CommitArtifacts (git_commit_new_release env ver) (\<lambda>_. Done) w"
| "advance env bump_level (Done, w) = (Done, w)"
| "advance env bump_level (Aborted s e, w) = (Aborted s e, w)"

text \<open>What a run has returned or raised when the machine is in a final state.\<close>

fun outcome :: "phase \<times> world \<Rightarrow> ((error + unit) \<times> world) option" where
  "outcome (Done, w) = Some (Inr (), w)"
| "outcome (Aborted s e, w) = Some (Inl e, w)"
| "outcome (ph, w) = None"

text \<open>The order of the steps, and the calls and raises among the events of a run.\<close>

definition release_order :: "step list" where
  "release_order = [CheckRepo, ReadVersion, Bump, WriteManifest, CommitVersion, Build, CommitArtifacts]"

fun is_mark :: "event \<Rightarrow> bool" where
  "is_mark (Call s) = True"
| "is_mark (Raised s e) = True"
| "is_mark _ = False"

definition events_since :: "world \<Rightarrow> world \<Rightarrow> event list" where
  "events_since w w' = drop (length (trace w)) (trace w')"

definition marks_since :: "world \<Rightarrow> world \<Rightarrow> event list" where
  "marks_since w w' = filter is_mark (events_since w w')"

text \<open>
  Auxiliary notions for reasoning about a run. A computation is quiet when it records no
  call and no raise of a step. A run over the steps \<open>ss\<close> has the right shape when it
  either returns, having called all of \<open>ss\<close> in order, or raises in one step (a step of
  \<open>A\<close>), having called the steps up to that one in order, the raise being its last event.
\<close>

definition quiet :: "'a prog \<Rightarrow> bool" where
  "quiet m = (\<forall>w r w'. m w = (r, w') \<longrightarrow> (\<exists>t. trace w' = trace w @ t \<and> filter is_mark t = []))"

definition ok_run :: "step set \<Rightarrow> step list \<Rightarrow> error + unit \<Rightarrow> event list \<Rightarrow> bool" where
  "ok_run A ss r evs =
     (r = Inr () \<and> filter is_mark evs = map Call ss \<or>
      (\<exists>k e t. k < length ss \<and> ss ! k \<in> A \<and> r = Inl e \<and> evs = t @ [Raised (ss ! k) e] \<and>
         filter is_mark t = map Call (take (Suc k) ss)))"

definition shape :: "step set \<Rightarrow> step list \<Rightarrow> unit prog \<Rightarrow> bool" where
  "shape A ss m = (\<forall>w r w'. m w = (r, w') \<longrightarrow> (\<exists>t. trace w' = trace w @ t \<and> ok_run A ss r t))"

text \<open>A parsed manifest's entry \<^verbatim>\<open>meta.k\<close>, when it has a table \<^verbatim>\<open>meta\<close> with the key \<open>k\<close>.\<close>

definition meta_entry :: "pyval \<Rightarrow> string \<Rightarrow> pyval option" where
  "meta_entry info k =
     (case info of
        PDict kvs \<Rightarrow> (case map_of kvs ''meta'' of Some (PDict m) \<Rightarrow> map_of m k | _ \<Rightarrow> None)
      | _ \<Rightarrow> None)"

text \<open>
  Inputs for the examples: a repository with three commits that is not bare, a parser that finds the name
  and the version 0.1.0, git commands that succeed and a build that prints \<^verbatim>\<open>ok\<close> and
  exits with status 1, which the script does not wait for.
\<close>

definition demo_env :: env where
  "demo_env =
     \<lparr>workdir = GitDir (Repo False 3),
      toml_load = (\<lambda>s. Inr (PDict [(''meta'', PDict [(''name'', PStr ''Demo''),
                                                      (''version'', PStr ''0.1.0'')])])),
      git_run = (\<lambda>c. None),
      build_sh = \<lparr>stdout = ''ok'', exit_status = 1, returncode = None\<rparr>\<rparr>"

definition demo_world :: world where
  "demo_world = \<lparr>manifest = Some ''name = Demo version = 0.1.0'', trace = []\<rparr>"




definition bad_output_env :: env where
  "bad_output_env = demo_env\<lparr>build_sh := \<lparr>stdout = [CHR 0xFF], exit_status = 0, returncode = None\<rparr>\<rparr>"

definition nameless_env :: env where
  "nameless_env =
     demo_env\<lparr>toml_load := (\<lambda>s. Inr (PDict [(''meta'', PDict [(''version'', PStr ''0.1.0'')])]))\<rparr>"

section \<open>Version arithmetic\<close>

text \<open>
  C1. For every version \<open>(M, N, P)\<close>, \<open>bump_version\<close> gives \<open>(M + 1, 0, 0)\<close> for
  \<^verbatim>\<open>"major"\<close>, \<open>(M, N + 1, 0)\<close> for \<^verbatim>\<open>"minor"\<close> and \<open>(M, N, P + 1)\<close> for \<^verbatim>\<open>"patch"\<close>: the bumped
  component grows by one, the components below it become zero and those above it stay.
  It holds for all integers, so for the non-negative ones of a version.
\<close>

theorem bump_version_components:
  "bump_version (M, N, P) ''major'' = Inr (M + 1, 0, 0) \<and>
   bump_version (M, N, P) ''minor'' = Inr (M, N + 1, 0) \<and>
   bump_version (M, N, P) ''patch'' = Inr (M, N, P + 1)"
  by (simp add: bump_version_def)

theorem bump_version_components_witness:
  "bump_version (1, 2, 3) ''major'' = Inr (2, 0, 0) \<and>
   bump_version (1, 2, 3) ''minor'' = Inr (1, 3, 0) \<and>
   bump_version (1, 2, 3) ''patch'' = Inr (1, 2, 4)"
  using bump_version_components [of 1 2 3] by simp

section \<open>Rendering and parsing a version\<close>

lemma digit_val_of: "d < 10 \<Longrightarrow> digit_val (digit_of d) = Some d"
  by (simp add: digit_val_def digit_of_def)

lemma digit_val_plain:
  assumes "digit_val c = Some v"
  shows "c \<noteq> CHR ''.''" "c \<noteq> CHR ''_''" "c \<noteq> CHR ''-''" "c \<noteq> CHR ''+''" "\<not> is_space c"
  using assms by (auto simp: digit_val_def is_space_def Let_def split: if_splits)

lemma all_digits_nat_digits: "all_digits (nat_digits n)"
proof (induction n rule: nat_digits.induct)
  case (1 n)
  show ?case
  proof (cases "n < 10")
    case True
    then show ?thesis
      by (simp add: nat_digits.simps [of n] all_digits_def digit_val_of)
  next
    case False
    with 1 show ?thesis
      by (simp add: nat_digits.simps [of n] all_digits_def digit_val_of)
  qed
qed

lemma nat_digits_nonempty: "nat_digits n \<noteq> []"
  by (subst nat_digits.simps) simp

lemma digits_value_snoc:
  "all_digits xs \<Longrightarrow> d < 10 \<Longrightarrow>
   digits_value acc (xs @ [digit_of d]) = map_option (\<lambda>v. 10 * v + d) (digits_value acc xs)"
proof (induction xs arbitrary: acc)
  case Nil
  then show ?case
    using digit_val_plain(2) [of "digit_of d" d] by (simp add: digit_val_of)
next
  case (Cons c cs)
  then obtain v where v: "digit_val c = Some v"
    by (auto simp: all_digits_def)
  from Cons.prems have "all_digits cs"
    by (simp add: all_digits_def)
  with Cons.IH Cons.prems(2) v digit_val_plain(2) [OF v] show ?case
    by simp
qed

lemma nat_of_digits_snoc:
  assumes "all_digits xs" "xs \<noteq> []" "d < 10"
  shows "nat_of_digits (xs @ [digit_of d]) = map_option (\<lambda>v. 10 * v + d) (nat_of_digits xs)"
proof -
  from assms(2) obtain c cs where xs: "xs = c # cs"
    by (cases xs) auto
  with assms(1) obtain v where v: "digit_val c = Some v" and cs: "all_digits cs"
    by (auto simp: all_digits_def)
  show ?thesis
    by (simp add: xs nat_of_digits_def v digits_value_snoc [OF cs assms(3)])
qed

lemma nat_of_digits_nat_digits: "nat_of_digits (nat_digits n) = Some n"
proof (induction n rule: nat_digits.induct)
  case (1 n)
  show ?case
  proof (cases "n < 10")
    case True
    then show ?thesis
      by (simp add: nat_digits.simps [of n] nat_of_digits_def digit_val_of)
  next
    case False
    then have "nat_of_digits (nat_digits (n div 10) @ [digit_of (n mod 10)]) =
               map_option (\<lambda>v. 10 * v + n mod 10) (nat_of_digits (nat_digits (n div 10)))"
      by (intro nat_of_digits_snoc all_digits_nat_digits nat_digits_nonempty) simp
    with False 1 show ?thesis
      by (simp add: nat_digits.simps [of n])
  qed
qed

lemma strip_id:
  assumes "s \<noteq> []" "\<not> is_space (hd s)" "\<not> is_space (last s)"
  shows "strip s = s"
proof -
  from assms(1,2) have a: "dropWhile is_space s = s"
    by (cases s) auto
  from assms(1,3) have "dropWhile is_space (rev s) = rev s"
    by (cases "rev s") (auto simp: last_rev hd_rev)
  with a show ?thesis
    by (simp add: strip_def)
qed

lemma hd_nat_digits: "digit_val (hd (nat_digits n)) \<noteq> None"
  using all_digits_nat_digits [of n] nat_digits_nonempty [of n]
  by (cases "nat_digits n") (auto simp: all_digits_def)

lemma last_nat_digits: "digit_val (last (nat_digits n)) \<noteq> None"
  using all_digits_nat_digits [of n] nat_digits_nonempty [of n] last_in_set [of "nat_digits n"]
  by (auto simp: all_digits_def)

lemma py_int_nat_digits: "py_int (nat_digits n) = Inr (int n)"
proof -
  obtain c cs where s: "nat_digits n = c # cs"
    using nat_digits_nonempty [of n] by (cases "nat_digits n") auto
  from hd_nat_digits [of n] s obtain v where v: "digit_val c = Some v"
    by auto
  have "strip (nat_digits n) = nat_digits n"
    using hd_nat_digits [of n] last_nat_digits [of n] digit_val_plain(5)
    by (intro strip_id nat_digits_nonempty) auto
  then show ?thesis
    using nat_of_digits_nat_digits [of n] digit_val_plain(3,4) [OF v]
    by (simp add: py_int_def s)
qed

lemma py_int_neg_digits: "0 < n \<Longrightarrow> py_int (CHR ''-'' # nat_digits n) = Inr (- int n)"
proof -
  have "\<not> is_space CHR ''-''"
    by (simp add: is_space_def)
  then have "strip (CHR ''-'' # nat_digits n) = CHR ''-'' # nat_digits n"
    using last_nat_digits [of n] digit_val_plain(5) nat_digits_nonempty [of n]
    by (intro strip_id) auto
  then show ?thesis
    using nat_of_digits_nat_digits [of n] by (simp add: py_int_def)
qed

lemma py_int_py_str: "py_int (py_str i) = Inr i"
  by (simp add: py_str_def py_int_nat_digits py_int_neg_digits)

lemma no_dot_py_str: "CHR ''.'' \<notin> set (py_str i)"
  using all_digits_nat_digits digit_val_plain(1)
  by (auto simp: py_str_def all_digits_def)

lemma str_split_nonempty: "str_split sep s \<noteq> []"
  by (induction s) (auto split: list.splits)

lemma str_split_no_sep: "sep \<notin> set xs \<Longrightarrow> str_split sep xs = [xs]"
  by (induction xs) auto

lemma str_split_at_sep: "sep \<notin> set xs \<Longrightarrow> str_split sep (xs @ sep # ys) = xs # str_split sep ys"
  by (induction xs) (auto split: list.splits simp: str_split_nonempty)

lemma str_split_version:
  "str_split CHR ''.'' (version_to_str (a, b, c)) = [py_str a, py_str b, py_str c]"
  by (simp add: version_to_str_def str_split_at_sep str_split_no_sep no_dot_py_str)

text \<open>
  C8. Round trip: parsing the canonical string of a version gives the version back,
  \<open>version_from_str (version_to_str v) = v\<close>. It holds for every triple of integers, so
  for the non-negative ones of a version.
\<close>

theorem version_roundtrip: "version_from_str (version_to_str v) = Inr v"
proof -
  obtain a b c where v: "v = (a, b, c)"
    by (cases v) auto
  show ?thesis
    by (simp add: version_from_str_def v str_split_version py_int_py_str)
qed

theorem version_roundtrip_witness:
  "version_to_str (1, 20, 300) = ''1.20.300'' \<and> version_from_str ''1.20.300'' = Inr (1, 20, 300)"
proof -
  have s: "version_to_str (1, 20, 300) = ''1.20.300''"
    by code_simp
  from version_roundtrip [of "(1, 20, 300)"] show ?thesis
    unfolding s by simp
qed

section \<open>Occurrences, search and replacement\<close>

lemma occurs_at_Nil [simp]: "occurs_at sub [] i \<longleftrightarrow> i = 0 \<and> sub = []"
  by (auto simp: occurs_at_def)

lemma occurs_at_0: "occurs_at sub s 0 \<longleftrightarrow> prefix sub s"
proof
  assume "occurs_at sub s 0"
  then have "take (length sub) s = sub"
    by (simp add: occurs_at_def)
  then have "s = sub @ drop (length sub) s"
    using append_take_drop_id [of "length sub" s] by simp
  then show "prefix sub s"
    by (rule prefixI)
next
  assume "prefix sub s"
  then show "occurs_at sub s 0"
    by (auto simp: occurs_at_def prefix_def)
qed

lemma occurs_at_Suc [simp]: "occurs_at sub (c # cs) (Suc i) \<longleftrightarrow> occurs_at sub cs i"
  by (simp add: occurs_at_def)

lemma str_contains_iff: "str_contains sub s \<longleftrightarrow> (\<exists>i. occurs_at sub s i)"
proof (induction s)
  case Nil
  then show ?case by simp
next
  case (Cons c cs)
  have "(\<exists>i. occurs_at sub (c # cs) i) \<longleftrightarrow> prefix sub (c # cs) \<or> (\<exists>j. occurs_at sub cs j)"
  proof
    assume "\<exists>i. occurs_at sub (c # cs) i"
    then obtain i where i: "occurs_at sub (c # cs) i" ..
    then show "prefix sub (c # cs) \<or> (\<exists>j. occurs_at sub cs j)"
      by (cases i) (auto simp: occurs_at_0)
  next
    assume "prefix sub (c # cs) \<or> (\<exists>j. occurs_at sub cs j)"
    then show "\<exists>i. occurs_at sub (c # cs) i"
      using occurs_at_0 [of sub "c # cs"] occurs_at_Suc [of sub c cs] by blast
  qed
  with Cons show ?case by simp
qed

lemma find_from_none: "(\<forall>k. \<not> occurs_at sub s k) \<Longrightarrow> find_from i sub s = - 1"
proof (induction s arbitrary: i)
  case Nil
  then show ?case by auto
next
  case (Cons c cs)
  from Cons.prems have "\<not> prefix sub (c # cs)" "\<forall>k. \<not> occurs_at sub cs k"
    using occurs_at_0 occurs_at_Suc by blast+
  with Cons.IH show ?case by simp
qed

lemma find_from_first:
  "occurs_at sub s k \<Longrightarrow> (\<forall>j<k. \<not> occurs_at sub s j) \<Longrightarrow> find_from i sub s = int (i + k)"
proof (induction s arbitrary: i k)
  case Nil
  then show ?case by simp
next
  case (Cons c cs)
  show ?case
  proof (cases k)
    case 0
    with Cons.prems show ?thesis by (simp add: occurs_at_0)
  next
    case (Suc k')
    with Cons.prems have "\<not> prefix sub (c # cs)" "occurs_at sub cs k'"
      "\<forall>j<k'. \<not> occurs_at sub cs j"
      using occurs_at_0 by auto
    with Cons.IH [of k' "Suc i"] Suc show ?thesis by simp
  qed
qed

lemma rfind_from_none: "(\<forall>k. \<not> occurs_at sub s k) \<Longrightarrow> rfind_from i sub s = - 1"
proof (induction s arbitrary: i)
  case Nil
  then show ?case by auto
next
  case (Cons c cs)
  from Cons.prems have "\<not> prefix sub (c # cs)" "\<forall>k. \<not> occurs_at sub cs k"
    using occurs_at_0 occurs_at_Suc by blast+
  with Cons.IH show ?case by simp
qed

lemma rfind_from_last:
  "occurs_at sub s k \<Longrightarrow> (\<forall>j>k. \<not> occurs_at sub s j) \<Longrightarrow> rfind_from i sub s = int (i + k)"
proof (induction s arbitrary: i k)
  case Nil
  then show ?case by simp
next
  case (Cons c cs)
  show ?case
  proof (cases k)
    case 0
    with Cons.prems have "\<forall>j. \<not> occurs_at sub cs j"
      by (metis occurs_at_Suc zero_less_Suc)
    then have "rfind_from (Suc i) sub cs = - 1"
      by (rule rfind_from_none)
    with 0 Cons.prems(1) show ?thesis by (simp add: occurs_at_0)
  next
    case (Suc k')
    from Cons.prems(1) Suc have a: "occurs_at sub cs k'"
      by simp
    have b: "\<forall>j>k'. \<not> occurs_at sub cs j"
    proof (intro allI impI)
      fix j assume "k' < j"
      with Cons.prems(2) Suc have "\<not> occurs_at sub (c # cs) (Suc j)"
        by (simp del: occurs_at_Suc)
      then show "\<not> occurs_at sub cs j" by simp
    qed
    note a b
    with Cons.IH [of k' "Suc i"] Suc show ?thesis by simp
  qed
qed

lemma set_occurrences: "set (occurrences sub s) = {i. occurs_at sub s i}"
  by (auto simp: occurrences_def occurs_at_def simp del: upt_Suc)

lemma sorted_occurrences: "sorted_wrt (<) (occurrences sub s)"
  unfolding occurrences_def by (intro sorted_wrt_filter) (simp del: upt_Suc)

lemma occurrences_empty: "occurrences sub s = [] \<Longrightarrow> \<not> occurs_at sub s k"
  using set_occurrences [of sub s] by auto

lemma occurrences_single: "occurrences sub s = [i] \<Longrightarrow> occurs_at sub s k \<longleftrightarrow> k = i"
  using set_occurrences [of sub s] by auto

lemma occurrences_first:
  assumes "occurrences sub s = a # rest"
  shows "occurs_at sub s a" "\<forall>j<a. \<not> occurs_at sub s j"
proof -
  show "occurs_at sub s a"
    using set_occurrences [of sub s] assms by auto
  have "\<forall>x \<in> set rest. a < x"
    using sorted_occurrences [of sub s] assms by simp
  then show "\<forall>j<a. \<not> occurs_at sub s j"
    using set_occurrences [of sub s] assms by (fastforce simp: set_eq_iff)
qed

lemma occurrences_last:
  assumes "occurrences sub s = front @ [b]"
  shows "occurs_at sub s b" "\<forall>j>b. \<not> occurs_at sub s j"
proof -
  show "occurs_at sub s b"
    using set_occurrences [of sub s] assms by auto
  have "\<forall>x \<in> set front. x < b"
    using sorted_occurrences [of sub s] assms by (simp add: sorted_wrt_append)
  then show "\<forall>j>b. \<not> occurs_at sub s j"
    using set_occurrences [of sub s] assms by (fastforce simp: set_eq_iff)
qed

lemma str_find_first: "occurrences sub s = a # rest \<Longrightarrow> str_find s sub = int a"
  using find_from_first [of sub s a 0] occurrences_first [of sub s a rest] by (simp add: str_find_def)

lemma str_rfind_last: "occurrences sub s = front @ [b] \<Longrightarrow> str_rfind s sub = int b"
  using rfind_from_last [of sub s b 0] occurrences_last [of sub s front b] by (simp add: str_rfind_def)

lemma str_find_absent: "occurrences sub s = [] \<Longrightarrow> str_find s sub = - 1"
  by (simp add: str_find_def find_from_none occurrences_empty)

lemma str_rfind_absent: "occurrences sub s = [] \<Longrightarrow> str_rfind s sub = - 1"
  by (simp add: str_rfind_def rfind_from_none occurrences_empty)

lemma str_contains_occurrences: "str_contains sub s \<longleftrightarrow> occurrences sub s \<noteq> []"
proof -
  have "occurrences sub s \<noteq> [] \<longleftrightarrow> set (occurrences sub s) \<noteq> {}"
    by simp
  also have "\<dots> \<longleftrightarrow> (\<exists>i. occurs_at sub s i)"
    by (simp add: set_occurrences)
  finally show ?thesis
    by (simp add: str_contains_iff)
qed

lemma find_differs_iff: "str_find s sub \<noteq> str_rfind s sub \<longleftrightarrow> 1 < length (occurrences sub s)"
proof (cases "occurrences sub s")
  case Nil
  then show ?thesis by (simp add: str_find_absent str_rfind_absent)
next
  case (Cons a rest)
  show ?thesis
  proof (cases rest rule: rev_cases)
    case Nil
    with Cons show ?thesis
      using str_find_first [of sub s a "[]"] str_rfind_last [of sub s "[]" a] by simp
  next
    case (snoc front b)
    with Cons have eq: "occurrences sub s = (a # front) @ [b]" by simp
    have "a < b"
      using sorted_occurrences [of sub s] eq by (simp add: sorted_wrt_append)
    with Cons snoc show ?thesis
      using str_find_first [OF Cons] str_rfind_last [OF eq] by simp
  qed
qed

lemma version_to_str_nonempty: "version_to_str v \<noteq> []"
proof -
  obtain a b c where v: "v = (a, b, c)"
    by (cases v) auto
  have "py_str a \<noteq> []"
    by (simp add: py_str_def nat_digits_nonempty)
  then show ?thesis
    by (simp add: v version_to_str_def)
qed

lemma occurs_at_drop:
  assumes "occurs_at sub (drop n s) j" "n \<le> length s"
  shows "occurs_at sub s (n + j)"
proof -
  have "drop j (drop n s) = drop (n + j) s"
    by (simp add: add.commute)
  moreover from assms have "n + j \<le> length s"
    by (auto simp: occurs_at_def)
  ultimately show ?thesis
    using assms(1) by (simp add: occurs_at_def)
qed

lemma replace_from_none:
  "(\<forall>k. \<not> occurs_at sub s k) \<Longrightarrow> replace_from sub new s = s"
proof (induction s)
  case Nil
  then show ?case by simp
next
  case (Cons c cs)
  from Cons.prems have "\<not> prefix sub (c # cs)" "\<forall>k. \<not> occurs_at sub cs k"
    using occurs_at_0 occurs_at_Suc by blast+
  with Cons.IH show ?case by simp
qed

lemma replace_from_unique:
  assumes "sub \<noteq> []" "occurs_at sub s k" "\<forall>j. occurs_at sub s j \<longrightarrow> j = k"
  shows "replace_from sub new s = take k s @ new @ drop (k + length sub) s"
  using assms(2,3)
proof (induction s arbitrary: k)
  case Nil
  with assms(1) show ?case by simp
next
  case (Cons c cs)
  show ?case
  proof (cases k)
    case 0
    with Cons.prems(1) have p: "prefix sub (c # cs)"
      by (simp add: occurs_at_0)
    then have len: "length sub \<le> length (c # cs)"
      by (rule prefix_length_le)
    have "\<forall>j. \<not> occurs_at sub (drop (length sub) (c # cs)) j"
    proof (intro allI notI)
      fix j assume "occurs_at sub (drop (length sub) (c # cs)) j"
      from occurs_at_drop [OF this len] Cons.prems(2) 0 assms(1) show False
        by auto
    qed
    then have rest: "replace_from sub new (drop (length sub) (c # cs)) = drop (length sub) (c # cs)"
      by (rule replace_from_none)
    have "replace_from sub new (c # cs) = new @ replace_from sub new (drop (length sub) (c # cs))"
      using p assms(1) by (simp only: replace_from.simps simp_thms if_True)
    with rest 0 show ?thesis by (simp only: take_0 append_Nil add_0)
  next
    case (Suc k')
    with Cons.prems have np: "\<not> prefix sub (c # cs)"
      using occurs_at_0 [of sub "c # cs"] by auto
    from Cons.prems(1) Suc have a: "occurs_at sub cs k'"
      by simp
    have b: "\<forall>j. occurs_at sub cs j \<longrightarrow> j = k'"
    proof (intro allI impI)
      fix j assume "occurs_at sub cs j"
      then have "occurs_at sub (c # cs) (Suc j)" by simp
      with Cons.prems(2) Suc show "j = k'" by blast
    qed
    from Cons.IH [OF a b] np Suc show ?thesis by simp
  qed
qed

lemma str_replace_single:
  assumes "sub \<noteq> []" "occurrences sub s = [i]"
  shows "str_replace s sub new = take i s @ new @ drop (i + length sub) s"
proof -
  have a: "occurs_at sub s i"
    using occurrences_single [OF assms(2), of i] by simp
  have b: "\<forall>j. occurs_at sub s j \<longrightarrow> j = i"
    using occurrences_single [OF assms(2)] by blast
  have "replace_from sub new s = take i s @ new @ drop (i + length sub) s"
    using assms(1) a b by (rule replace_from_unique)
  with assms(1) show ?thesis
    by (simp only: str_replace_def if_False)
qed

section \<open>The manifest writer\<close>

lemma events_since_append [simp]: "events_since w (w\<lparr>trace := trace w @ t\<rparr>) = t"
  by (simp add: events_since_def)

lemma events_since_append_manifest [simp]:
  "events_since w (w\<lparr>manifest := m, trace := trace w @ t\<rparr>) = t"
  by (simp add: events_since_def)

lemma update_missing:
  "manifest w = None \<Longrightarrow>
   update_info_toml_version prior_ver new_ver w =
     (Inl MissingManifest, w\<lparr>trace := trace w @ [PathExists]\<rparr>)"
  by (simp add: update_info_toml_version_def seq_def path_exists_def raise_def emit_def)

lemma text_of_cases: "text_of bs = Inl UnicodeDecodeError \<or> (\<exists>s. text_of bs = Inr s)"
  by (simp add: text_of_def decode_utf8_def)

lemma text_of_Inl: "text_of bs = Inl e \<Longrightarrow> e = UnicodeDecodeError"
  by (simp add: text_of_def decode_utf8_def split: if_splits)

lemma update_undecodable:
  "manifest w = Some bs \<Longrightarrow> text_of bs = Inl e \<Longrightarrow>
   update_info_toml_version prior_ver new_ver w =
     (Inl e, w\<lparr>trace := trace w @ [PathExists, ReadText]\<rparr>)"
  by (simp add: update_info_toml_version_def seq_def path_exists_def read_text_def read_bytes_def
      lift_def emit_def)

lemma update_present:
  "manifest w = Some bs \<Longrightarrow> text_of bs = Inr info_str \<Longrightarrow>
   update_info_toml_version prior_ver new_ver w =
     (let pv_str = version_to_str prior_ver in
      if occurrences pv_str info_str = [] then
        (Inl (VersionNotFound pv_str), w\<lparr>trace := trace w @ [PathExists, ReadText]\<rparr>)
      else if 1 < length (occurrences pv_str info_str) then
        (Inl (AmbiguousVersion pv_str), w\<lparr>trace := trace w @ [PathExists, ReadText]\<rparr>)
      else
        (Inr (), w\<lparr>manifest := Some (str_replace info_str pv_str (version_to_str new_ver)),
                    trace := trace w @
                      [PathExists, ReadText,
                       WriteText (str_replace info_str pv_str (version_to_str new_ver)),
                       Log (''Wrote new info.toml with updated version: '' @
                            version_to_str new_ver)]\<rparr>))"
  by (simp add: update_info_toml_version_def seq_def path_exists_def read_text_def read_bytes_def
      lift_def write_text_def effect_def raise_def emit_def Let_def str_contains_occurrences
      find_differs_iff)

lemma version_to_str_123: "version_to_str (1, 2, 3) = ''1.2.3''"
  by code_simp

text \<open>
  C4. The manifest content is the text that \<^verbatim>\<open>read_text()\<close> gives for the bytes of the
  file: the bytes decoded, the line ends as LF. When the canonical string of the prior
  version occurs more than once in it, \<open>update_info_toml_version\<close> raises
  \<open>AmbiguousVersion\<close> and does not write the file: the world afterwards differs only by
  the events of the existence check and the read. Occurring more than once is the same
  as the first and the last position found being different, which is what the source
  tests.
\<close>

theorem update_rejects_ambiguous:
  assumes "manifest w = Some bs"
    and "text_of bs = Inr info_str"
    and "1 < length (occurrences (version_to_str prior_ver) info_str)"
  shows "str_find info_str (version_to_str prior_ver) \<noteq> str_rfind info_str (version_to_str prior_ver) \<and>
         update_info_toml_version prior_ver new_ver w =
           (Inl (AmbiguousVersion (version_to_str prior_ver)),
            w\<lparr>trace := trace w @ [PathExists, ReadText]\<rparr>)"
proof -
  from assms(3) have "occurrences (version_to_str prior_ver) info_str \<noteq> []"
    by auto
  with assms show ?thesis
    by (simp add: update_present find_differs_iff)
qed

theorem update_rejects_ambiguous_witness:
  "text_of (''version = 1.2.3'' @ [CHR 0x0D, CHR 0x0A] @ ''requires = 1.2.3'') =
     Inr (''version = 1.2.3'' @ [CHR 0x0A] @ ''requires = 1.2.3'') \<and>
   1 < length (occurrences (version_to_str (1, 2, 3))
                 (''version = 1.2.3'' @ [CHR 0x0A] @ ''requires = 1.2.3'')) \<and>
   update_info_toml_version (1, 2, 3) (1, 2, 4)
       \<lparr>manifest = Some (''version = 1.2.3'' @ [CHR 0x0D, CHR 0x0A] @ ''requires = 1.2.3''),
          trace = []\<rparr> =
     (Inl (AmbiguousVersion ''1.2.3''),
      \<lparr>manifest = Some (''version = 1.2.3'' @ [CHR 0x0D, CHR 0x0A] @ ''requires = 1.2.3''),
         trace = [PathExists, ReadText]\<rparr>)"
proof -
  have t: "text_of (''version = 1.2.3'' @ [CHR 0x0D, CHR 0x0A] @ ''requires = 1.2.3'') =
     Inr (''version = 1.2.3'' @ [CHR 0x0A] @ ''requires = 1.2.3'')"
    by code_simp
  have h: "1 < length (occurrences (version_to_str (1, 2, 3))
                 (''version = 1.2.3'' @ [CHR 0x0A] @ ''requires = 1.2.3''))"
    by code_simp
  have m: "manifest \<lparr>manifest = Some (''version = 1.2.3'' @ [CHR 0x0D, CHR 0x0A] @ ''requires = 1.2.3''),
          trace = []\<rparr> = Some (''version = 1.2.3'' @ [CHR 0x0D, CHR 0x0A] @ ''requires = 1.2.3'')"
    by simp
  from update_rejects_ambiguous [OF m t h, of "(1, 2, 4)"] t h
  show ?thesis
    unfolding version_to_str_123 by simp
qed

text \<open>
  C5. When the canonical string of the prior version does not occur in the manifest
  content, the text that \<^verbatim>\<open>read_text()\<close> gives for the bytes of the file,
  \<open>update_info_toml_version\<close> raises \<open>VersionNotFound\<close> and does not write the file.
\<close>

theorem update_rejects_absent:
  assumes "manifest w = Some bs"
    and "text_of bs = Inr info_str"
    and "occurrences (version_to_str prior_ver) info_str = []"
  shows "update_info_toml_version prior_ver new_ver w =
           (Inl (VersionNotFound (version_to_str prior_ver)),
            w\<lparr>trace := trace w @ [PathExists, ReadText]\<rparr>)"
  using assms by (simp add: update_present)

theorem update_rejects_absent_witness:
  "text_of ''version = 1.2.4'' = Inr ''version = 1.2.4'' \<and>
   occurrences (version_to_str (1, 2, 3)) ''version = 1.2.4'' = [] \<and>
   update_info_toml_version (1, 2, 3) (1, 2, 4) \<lparr>manifest = Some ''version = 1.2.4'', trace = []\<rparr> =
     (Inl (VersionNotFound ''1.2.3''),
      \<lparr>manifest = Some ''version = 1.2.4'', trace = [PathExists, ReadText]\<rparr>)"
proof -
  have t: "text_of ''version = 1.2.4'' = Inr ''version = 1.2.4''"
    by code_simp
  have h: "occurrences (version_to_str (1, 2, 3)) ''version = 1.2.4'' = []"
    by code_simp
  have m: "manifest \<lparr>manifest = Some ''version = 1.2.4'', trace = []\<rparr> = Some ''version = 1.2.4''"
    by simp
  from update_rejects_absent [OF m t h, of "(1, 2, 4)"] t h
  show ?thesis
    unfolding version_to_str_123 by simp
qed

text \<open>
  C9. The writer is atomic on error: whenever \<open>update_info_toml_version\<close> raises, the
  bytes of the manifest are what they were and no write happened. It raises in four
  cases, each before the single write: the file is missing; its bytes are not UTF-8, and
  \<^verbatim>\<open>read_text()\<close> raises \<open>UnicodeDecodeError\<close>; the prior version string is absent from the
  text; it occurs there more than once.
\<close>

theorem update_atomic_on_error:
  assumes "update_info_toml_version prior_ver new_ver w = (Inl e, w')"
  shows "manifest w' = manifest w \<and>
         (\<forall>s. WriteText s \<notin> set (events_since w w')) \<and>
         (manifest w = None \<and> e = MissingManifest \<or>
          (\<exists>bs. manifest w = Some bs \<and> text_of bs = Inl UnicodeDecodeError \<and>
             e = UnicodeDecodeError) \<or>
          (\<exists>bs info_str. manifest w = Some bs \<and> text_of bs = Inr info_str \<and>
             occurrences (version_to_str prior_ver) info_str = [] \<and>
             e = VersionNotFound (version_to_str prior_ver)) \<or>
          (\<exists>bs info_str. manifest w = Some bs \<and> text_of bs = Inr info_str \<and>
             1 < length (occurrences (version_to_str prior_ver) info_str) \<and>
             e = AmbiguousVersion (version_to_str prior_ver)))"
proof (cases "manifest w")
  case None
  with assms show ?thesis
    by (auto simp: update_missing)
next
  case (Some bs)
  from text_of_cases [of bs] show ?thesis
  proof
    assume t: "text_of bs = Inl UnicodeDecodeError"
    from assms show ?thesis
      unfolding update_undecodable [OF Some t] using Some t by auto
  next
    assume "\<exists>s. text_of bs = Inr s"
    then obtain info_str where t: "text_of bs = Inr info_str" ..
    from assms show ?thesis
      unfolding update_present [OF Some t] using Some t
      by (auto simp: Let_def split: if_splits)
  qed
qed

theorem update_atomic_on_error_witness:
  "update_info_toml_version (1, 2, 3) (1, 2, 4)
       \<lparr>manifest = Some (''version = 1.2.3'' @ [CHR 0xFF]), trace = []\<rparr> =
     (Inl UnicodeDecodeError,
      \<lparr>manifest = Some (''version = 1.2.3'' @ [CHR 0xFF]), trace = [PathExists, ReadText]\<rparr>) \<and>
   manifest \<lparr>manifest = Some (''version = 1.2.3'' @ [CHR 0xFF]), trace = [PathExists, ReadText]\<rparr> =
     manifest \<lparr>manifest = Some (''version = 1.2.3'' @ [CHR 0xFF]), trace = []\<rparr> \<and>
   (\<forall>s. WriteText s \<notin> set (events_since
            \<lparr>manifest = Some (''version = 1.2.3'' @ [CHR 0xFF]), trace = []\<rparr>
            \<lparr>manifest = Some (''version = 1.2.3'' @ [CHR 0xFF]), trace = [PathExists, ReadText]\<rparr>)) \<and>
   update_info_toml_version (1, 2, 3) (1, 2, 4)
       \<lparr>manifest = Some ''version = 1.2.3 requires = 1.2.3'', trace = []\<rparr> =
     (Inl (AmbiguousVersion ''1.2.3''),
      \<lparr>manifest = Some ''version = 1.2.3 requires = 1.2.3'', trace = [PathExists, ReadText]\<rparr>) \<and>
   manifest \<lparr>manifest = Some ''version = 1.2.3 requires = 1.2.3'', trace = [PathExists, ReadText]\<rparr> =
     manifest \<lparr>manifest = Some ''version = 1.2.3 requires = 1.2.3'', trace = []\<rparr> \<and>
   (\<forall>s. WriteText s \<notin> set (events_since
            \<lparr>manifest = Some ''version = 1.2.3 requires = 1.2.3'', trace = []\<rparr>
            \<lparr>manifest = Some ''version = 1.2.3 requires = 1.2.3'', trace = [PathExists, ReadText]\<rparr>))"
proof -
  have t1: "text_of (''version = 1.2.3'' @ [CHR 0xFF]) = Inl UnicodeDecodeError"
    by code_simp
  have h1: "update_info_toml_version (1, 2, 3) (1, 2, 4)
       \<lparr>manifest = Some (''version = 1.2.3'' @ [CHR 0xFF]), trace = []\<rparr> =
     (Inl UnicodeDecodeError,
      \<lparr>manifest = Some (''version = 1.2.3'' @ [CHR 0xFF]), trace = [PathExists, ReadText]\<rparr>)"
    by (simp add: update_undecodable [OF _ t1])
  have t2: "text_of ''version = 1.2.3 requires = 1.2.3'' = Inr ''version = 1.2.3 requires = 1.2.3''"
    by code_simp
  have o2: "occurrences ''1.2.3'' ''version = 1.2.3 requires = 1.2.3'' = [10, 27]"
    by code_simp
  have h2: "update_info_toml_version (1, 2, 3) (1, 2, 4)
       \<lparr>manifest = Some ''version = 1.2.3 requires = 1.2.3'', trace = []\<rparr> =
     (Inl (AmbiguousVersion ''1.2.3''),
      \<lparr>manifest = Some ''version = 1.2.3 requires = 1.2.3'', trace = [PathExists, ReadText]\<rparr>)"
    by (simp add: update_present [OF _ t2] Let_def version_to_str_123 o2)
  from update_atomic_on_error [OF h1] update_atomic_on_error [OF h2] h1 h2 show ?thesis
    by blast
qed

subsection \<open>Replacing the one occurrence\<close>

lemma occurs_at_split:
  assumes "occurs_at sub s i"
  shows "s = take i s @ sub @ drop (i + length sub) s" "length (take i s) = i"
proof -
  from assms have le: "i \<le> length s" and t: "take (length sub) (drop i s) = sub"
    by (simp_all add: occurs_at_def)
  have "drop i s = take (length sub) (drop i s) @ drop (length sub) (drop i s)"
    by (rule append_take_drop_id [symmetric])
  also have "drop (length sub) (drop i s) = drop (i + length sub) s"
    by (simp add: add.commute)
  finally have "drop i s = sub @ drop (i + length sub) s"
    by (simp only: t)
  then show "s = take i s @ sub @ drop (i + length sub) s"
    using append_take_drop_id [of i s] by simp
  from le show "length (take i s) = i"
    by simp
qed

lemma occurs_at_nth:
  "occurs_at sub s k \<longleftrightarrow> k + length sub \<le> length s \<and> (\<forall>j<length sub. s ! (k + j) = sub ! j)"
proof
  assume a: "occurs_at sub s k"
  then have le: "k \<le> length s" and t: "take (length sub) (drop k s) = sub"
    by (simp_all add: occurs_at_def)
  from t have "length (take (length sub) (drop k s)) = length sub"
    by simp
  then have len: "k + length sub \<le> length s"
    using le by simp
  have "\<forall>j<length sub. s ! (k + j) = sub ! j"
  proof (intro allI impI)
    fix j assume j: "j < length sub"
    have "sub ! j = take (length sub) (drop k s) ! j"
      by (simp only: t)
    also have "\<dots> = s ! (k + j)"
      using j len by simp
    finally show "s ! (k + j) = sub ! j" by simp
  qed
  with len show "k + length sub \<le> length s \<and> (\<forall>j<length sub. s ! (k + j) = sub ! j)"
    by simp
next
  assume a: "k + length sub \<le> length s \<and> (\<forall>j<length sub. s ! (k + j) = sub ! j)"
  then have "take (length sub) (drop k s) = sub"
    by (intro nth_equalityI) auto
  with a show "occurs_at sub s k"
    by (simp add: occurs_at_def)
qed

lemma occurs_at_5:
  "occurs_at [a, b, c, d, e] s k \<longleftrightarrow>
     k + 5 \<le> length s \<and> s ! k = a \<and> s ! (k + 1) = b \<and> s ! (k + 2) = c \<and>
     s ! (k + 3) = d \<and> s ! (k + 4) = e"
proof -
  have "(\<forall>j<5. s ! (k + j) = [a, b, c, d, e] ! j) \<longleftrightarrow>
        s ! k = a \<and> s ! (k + 1) = b \<and> s ! (k + 2) = c \<and> s ! (k + 3) = d \<and> s ! (k + 4) = e"
    by (simp add: numeral_eq_Suc less_Suc_eq all_conj_distrib conj_ac)
  moreover have "length [a, b, c, d, e] = 5"
    by simp
  ultimately show ?thesis
    by (simp only: occurs_at_nth)
qed

lemma patch_010_as_update:
  assumes "occurs_at ''0.1.0'' s i"
  shows "replace_at s i 5 ''0.1.1'' = s[i + 4 := CHR ''1'']"
proof -
  define X Y where "X = take i s" and "Y = drop (i + 5) s"
  have five: "length ''0.1.0'' = 5"
    by simp
  have s: "s = X @ ''0.1.0'' @ Y"
    using occurs_at_split(1) [OF assms] by (simp only: five X_def Y_def)
  have len: "length X = i"
    using occurs_at_split(2) [OF assms] by (simp only: X_def)
  have "(X @ ''0.1.0'' @ Y)[length X + 4 := CHR ''1''] = X @ ''0.1.1'' @ Y"
    by (simp add: list_update_append)
  with s len have "s[i + 4 := CHR ''1''] = X @ ''0.1.1'' @ Y"
    by simp
  then show ?thesis
    by (simp add: replace_at_def X_def Y_def)
qed

lemma patch_010_no_old:
  assumes "occurrences ''0.1.0'' s = [i]"
  shows "occurrences ''0.1.0'' (replace_at s i 5 ''0.1.1'') = []"
proof -
  have at_i: "occurs_at ''0.1.0'' s i"
    using occurrences_single [OF assms, of i] by simp
  have only_i: "\<And>k. occurs_at ''0.1.0'' s k \<Longrightarrow> k = i"
    using occurrences_single [OF assms] by simp
  from at_i have s_i: "i + 5 \<le> length s" "s ! i = CHR ''0''" "s ! (i + 1) = CHR ''.''"
    "s ! (i + 2) = CHR ''1''" "s ! (i + 3) = CHR ''.''" "s ! (i + 4) = CHR ''0''"
    by (simp_all add: occurs_at_5)
  define r where "r = s[i + 4 := CHR ''1'']"
  have r_nth: "\<And>m. m < length s \<Longrightarrow> r ! m = (if m = i + 4 then CHR ''1'' else s ! m)"
    by (simp add: r_def nth_list_update)
  have "\<not> occurs_at ''0.1.0'' r k" for k
  proof
    assume "occurs_at ''0.1.0'' r k"
    then have k: "k + 5 \<le> length s" "r ! k = CHR ''0''" "r ! (k + 1) = CHR ''.''"
      "r ! (k + 2) = CHR ''1''" "r ! (k + 3) = CHR ''.''" "r ! (k + 4) = CHR ''0''"
      by (simp_all add: occurs_at_5 r_def)
    consider "i + 4 < k \<or> k < i" | "k = i" | "k = i + 1" | "k = i + 2" | "k = i + 3" | "k = i + 4"
      by arith
    then show False
    proof cases
      case 1
      with k r_nth [of k] r_nth [of "k + 1"] r_nth [of "k + 2"] r_nth [of "k + 3"] r_nth [of "k + 4"]
      have "occurs_at ''0.1.0'' s k"
        by (auto simp: occurs_at_5)
      from only_i [OF this] 1 show False by simp
    next
      case 2
      with k(1,6) r_nth [of "k + 4"] show False by simp
    next
      case 3
      with k(1,5) r_nth [of "k + 3"] show False by simp
    next
      case 4
      with k(1,2) r_nth [of k] s_i show False by simp
    next
      case 5
      with k(1,3) r_nth [of "k + 1"] show False by simp
    next
      case 6
      with k(1,2) r_nth [of k] show False by simp
    qed
  qed
  then have "occurrences ''0.1.0'' r = []"
    using set_occurrences [of "''0.1.0''" r] by (cases "occurrences ''0.1.0'' r") auto
  then show ?thesis
    by (simp add: r_def patch_010_as_update [OF at_i])
qed

lemma replace_at_occurs: "i \<le> length s \<Longrightarrow> occurs_at new (replace_at s i n new) i"
  by (simp add: replace_at_def occurs_at_def)

lemma version_to_str_010: "version_to_str (0, 1, 0) = ''0.1.0''"
  by code_simp

lemma version_to_str_011: "version_to_str (0, 1, 1) = ''0.1.1''"
  by code_simp

lemma version_to_str_201: "version_to_str (2, 0, 1) = ''2.0.1''"
  by code_simp

lemma version_to_str_202: "version_to_str (2, 0, 2) = ''2.0.2''"
  by code_simp

lemma length_010: "length ''0.1.0'' = 5"
  by simp

lemma str_replace_single_at:
  assumes "occurrences (version_to_str prior_ver) s = [i]"
  shows "str_replace s (version_to_str prior_ver) new =
         replace_at s i (length (version_to_str prior_ver)) new"
  using str_replace_single [OF version_to_str_nonempty assms] by (simp add: replace_at_def)

text \<open>
  C6, as the code has it. The manifest content is the text that \<^verbatim>\<open>read_text()\<close> gives
  for the bytes of the file: the bytes decoded, the line ends as LF. When the canonical
  string of the prior version occurs exactly once in it, at position \<open>i\<close>, the write
  succeeds and the new content of the file is that text with the occurrence replaced by
  the canonical string of the new version: the text before and after it is unchanged and
  the new string stands at position \<open>i\<close>. For a patch bump of a manifest that holds
  \<^verbatim>\<open>0.1.0\<close> once, the new content holds \<^verbatim>\<open>0.1.1\<close> and no \<^verbatim>\<open>0.1.0\<close>.
\<close>

theorem update_replaces_occurrence:
  assumes "manifest w = Some bs"
    and "text_of bs = Inr info_str"
    and "occurrences (version_to_str prior_ver) info_str = [i]"
  shows "update_info_toml_version prior_ver new_ver w =
           (Inr (),
            w\<lparr>manifest := Some (replace_at info_str i (length (version_to_str prior_ver))
                                  (version_to_str new_ver)),
              trace := trace w @
                [PathExists, ReadText,
                 WriteText (replace_at info_str i (length (version_to_str prior_ver))
                              (version_to_str new_ver)),
                 Log (''Wrote new info.toml with updated version: '' @ version_to_str new_ver)]\<rparr>) \<and>
         replace_at info_str i (length (version_to_str prior_ver)) (version_to_str new_ver) =
           take i info_str @ version_to_str new_ver @
           drop (i + length (version_to_str prior_ver)) info_str \<and>
         occurs_at (version_to_str new_ver)
           (replace_at info_str i (length (version_to_str prior_ver)) (version_to_str new_ver)) i \<and>
         (prior_ver = (0, 1, 0) \<and> bump_version prior_ver ''patch'' = Inr new_ver \<longrightarrow>
            occurrences ''0.1.0''
              (replace_at info_str i (length (version_to_str prior_ver)) (version_to_str new_ver)) = [] \<and>
            occurrences ''0.1.1''
              (replace_at info_str i (length (version_to_str prior_ver)) (version_to_str new_ver)) \<noteq> [])"
proof -
  let ?new = "replace_at info_str i (length (version_to_str prior_ver)) (version_to_str new_ver)"
  have run: "update_info_toml_version prior_ver new_ver w =
           (Inr (),
            w\<lparr>manifest := Some ?new,
              trace := trace w @
                [PathExists, ReadText, WriteText ?new,
                 Log (''Wrote new info.toml with updated version: '' @ version_to_str new_ver)]\<rparr>)"
    using assms by (simp add: update_present Let_def str_replace_single_at)
  have eq: "?new = take i info_str @ version_to_str new_ver @
           drop (i + length (version_to_str prior_ver)) info_str"
    by (simp add: replace_at_def)
  have "occurs_at (version_to_str prior_ver) info_str i"
    using occurrences_single [OF assms(3), of i] by simp
  then have "i \<le> length info_str"
    by (simp add: occurs_at_def)
  then have at: "occurs_at (version_to_str new_ver) ?new i"
    by (rule replace_at_occurs)
  have patch: "occurrences ''0.1.0'' ?new = [] \<and> occurrences ''0.1.1'' ?new \<noteq> []"
    if a: "prior_ver = (0, 1, 0) \<and> bump_version prior_ver ''patch'' = Inr new_ver"
  proof -
    from a have new: "new_ver = (0, 1, 1)"
      by (auto simp: bump_version_def)
    from a have pv: "version_to_str prior_ver = ''0.1.0''"
      by (simp add: version_to_str_010)
    from new have nv: "version_to_str new_ver = ''0.1.1''"
      by (simp add: version_to_str_011)
    from assms(3) have "occurrences ''0.1.0'' info_str = [i]"
      by (simp only: pv)
    then have gone: "occurrences ''0.1.0'' ?new = []"
      unfolding pv nv length_010 by (rule patch_010_no_old)
    from at have "occurs_at ''0.1.1'' ?new i"
      by (simp only: nv)
    then have "i \<in> set (occurrences ''0.1.1'' ?new)"
      by (simp add: set_occurrences)
    then have "occurrences ''0.1.1'' ?new \<noteq> []"
      by auto
    with gone show ?thesis ..
  qed
  from run eq at patch show ?thesis
    by blast
qed

theorem update_replaces_occurrence_witness:
  "text_of (''name = Demo'' @ [CHR 0x0D, CHR 0x0A] @ ''version = 0.1.0'' @ [CHR 0x0D, CHR 0x0A]) =
     Inr (''name = Demo'' @ [CHR 0x0A] @ ''version = 0.1.0'' @ [CHR 0x0A]) \<and>
   occurrences (version_to_str (0, 1, 0))
     (''name = Demo'' @ [CHR 0x0A] @ ''version = 0.1.0'' @ [CHR 0x0A]) = [22] \<and>
   bump_version (0, 1, 0) ''patch'' = Inr (0, 1, 1) \<and>
   update_info_toml_version (0, 1, 0) (0, 1, 1)
       \<lparr>manifest = Some (''name = Demo'' @ [CHR 0x0D, CHR 0x0A] @ ''version = 0.1.0'' @
                           [CHR 0x0D, CHR 0x0A]),
          trace = []\<rparr> =
     (Inr (),
      \<lparr>manifest = Some (''name = Demo'' @ [CHR 0x0A] @ ''version = 0.1.1'' @ [CHR 0x0A]),
         trace = [PathExists, ReadText,
                  WriteText (''name = Demo'' @ [CHR 0x0A] @ ''version = 0.1.1'' @ [CHR 0x0A]),
                  Log ''Wrote new info.toml with updated version: 0.1.1'']\<rparr>) \<and>
   occurs_at ''0.1.1'' (''name = Demo'' @ [CHR 0x0A] @ ''version = 0.1.1'' @ [CHR 0x0A]) 22 \<and>
   occurrences ''0.1.0'' (''name = Demo'' @ [CHR 0x0A] @ ''version = 0.1.1'' @ [CHR 0x0A]) = []"
proof -
  have t: "text_of (''name = Demo'' @ [CHR 0x0D, CHR 0x0A] @ ''version = 0.1.0'' @ [CHR 0x0D, CHR 0x0A]) =
     Inr (''name = Demo'' @ [CHR 0x0A] @ ''version = 0.1.0'' @ [CHR 0x0A])"
    by code_simp
  have h: "occurrences (version_to_str (0, 1, 0))
     (''name = Demo'' @ [CHR 0x0A] @ ''version = 0.1.0'' @ [CHR 0x0A]) = [22]"
    by code_simp
  have b: "bump_version (0, 1, 0) ''patch'' = Inr (0, 1, 1)"
    by (simp add: bump_version_def)
  have r: "replace_at (''name = Demo'' @ [CHR 0x0A] @ ''version = 0.1.0'' @ [CHR 0x0A]) 22 5 ''0.1.1'' =
     ''name = Demo'' @ [CHR 0x0A] @ ''version = 0.1.1'' @ [CHR 0x0A]"
    by (simp add: replace_at_def)
  have m: "manifest \<lparr>manifest = Some (''name = Demo'' @ [CHR 0x0D, CHR 0x0A] @ ''version = 0.1.0'' @
                           [CHR 0x0D, CHR 0x0A]),
          trace = []\<rparr> = Some (''name = Demo'' @ [CHR 0x0D, CHR 0x0A] @ ''version = 0.1.0'' @
                           [CHR 0x0D, CHR 0x0A])"
    by simp
  note u = update_replaces_occurrence [OF m t h, of "(0, 1, 1)",
      unfolded version_to_str_010 version_to_str_011 length_010 r]
  from u t h b show ?thesis
    by (simp add: version_to_str_010)
qed

text \<open>
  The prior string need not be gone from the new content: the replacement can complete
  a new occurrence with the text that follows it. A patch bump from 2.0.1 of a manifest
  that holds \<^verbatim>\<open>2.0.1.0.1\<close> writes \<^verbatim>\<open>2.0.2.0.1\<close>, which holds \<^verbatim>\<open>2.0.1\<close> at position 15.
\<close>

theorem update_leaves_prior_counterexample:
  "bump_version (2, 0, 1) ''patch'' = Inr (2, 0, 2) \<and>
   text_of ''requires = 2.0.1.0.1'' = Inr ''requires = 2.0.1.0.1'' \<and>
   occurrences (version_to_str (2, 0, 1)) ''requires = 2.0.1.0.1'' = [11] \<and>
   update_info_toml_version (2, 0, 1) (2, 0, 2)
       \<lparr>manifest = Some ''requires = 2.0.1.0.1'', trace = []\<rparr> =
     (Inr (),
      \<lparr>manifest = Some ''requires = 2.0.2.0.1'',
         trace = [PathExists, ReadText, WriteText ''requires = 2.0.2.0.1'',
                  Log ''Wrote new info.toml with updated version: 2.0.2'']\<rparr>) \<and>
   occurrences (version_to_str (2, 0, 1)) ''requires = 2.0.2.0.1'' = [15]"
proof -
  have b: "bump_version (2, 0, 1) ''patch'' = Inr (2, 0, 2)"
    by (simp add: bump_version_def)
  have t: "text_of ''requires = 2.0.1.0.1'' = Inr ''requires = 2.0.1.0.1''"
    by code_simp
  have h: "occurrences ''2.0.1'' ''requires = 2.0.1.0.1'' = [11]"
    by code_simp
  have r: "str_replace ''requires = 2.0.1.0.1'' ''2.0.1'' ''2.0.2'' = ''requires = 2.0.2.0.1''"
    by code_simp
  have a: "occurrences ''2.0.1'' ''requires = 2.0.2.0.1'' = [15]"
    by code_simp
  have "update_info_toml_version (2, 0, 1) (2, 0, 2)
       \<lparr>manifest = Some ''requires = 2.0.1.0.1'', trace = []\<rparr> =
     (Inr (),
      \<lparr>manifest = Some ''requires = 2.0.2.0.1'',
         trace = [PathExists, ReadText, WriteText ''requires = 2.0.2.0.1'',
                  Log ''Wrote new info.toml with updated version: 2.0.2'']\<rparr>)"
    by (simp add: update_present [OF _ t] Let_def version_to_str_201 version_to_str_202 h r)
  with b t h a show ?thesis
    by (simp add: version_to_str_201)
qed

section \<open>The release orchestrator\<close>

subsection \<open>Quiet computations\<close>

lemma quietI:
  assumes "\<And>w r w'. m w = (r, w') \<Longrightarrow> \<exists>t. trace w' = trace w @ t \<and> filter is_mark t = []"
  shows "quiet m"
  using assms unfolding quiet_def by blast

lemma quietD:
  assumes "quiet m" "m w = (r, w')"
  obtains t where "trace w' = trace w @ t" "filter is_mark t = []"
  using assms unfolding quiet_def by blast

lemma quiet_ret [intro!]: "quiet (ret x)"
  by (rule quietI) (simp add: ret_def)

lemma quiet_raise [intro!]: "quiet (raise e)"
  by (rule quietI) (simp add: raise_def)

lemma quiet_lift [intro!]: "quiet (lift r)"
  by (rule quietI) (simp add: lift_def)

lemma quiet_effect: "\<not> is_mark ev \<Longrightarrow> quiet (effect ev)"
  by (rule quietI) (auto simp: effect_def emit_def)

lemma quiet_path_exists [intro!]: "quiet path_exists"
  by (rule quietI) (auto simp: path_exists_def emit_def)

lemma quiet_read_bytes [intro!]: "quiet read_bytes"
  by (rule quietI) (auto simp: read_bytes_def emit_def split: option.splits)

lemma quiet_write_text [intro!]: "quiet (write_text s)"
  by (rule quietI) (auto simp: write_text_def emit_def)

lemma quiet_seq [intro!]:
  assumes "quiet m" "\<And>x. quiet (f x)"
  shows "quiet (seq m f)"
proof (rule quietI)
  fix w r w'
  assume run: "seq m f w = (r, w')"
  obtain r1 w1 where m: "m w = (r1, w1)"
    by (cases "m w") auto
  from quietD [OF assms(1) m] obtain t1 where t1: "trace w1 = trace w @ t1" "filter is_mark t1 = []"
    by blast
  show "\<exists>t. trace w' = trace w @ t \<and> filter is_mark t = []"
  proof (cases r1)
    case (Inl e)
    with run m have "w' = w1"
      by (simp add: seq_def)
    with t1 show ?thesis by blast
  next
    case (Inr x)
    with run m have "f x w1 = (r, w')"
      by (simp add: seq_def)
    from quietD [OF assms(2) this] obtain t2 where "trace w' = trace w1 @ t2" "filter is_mark t2 = []"
      by blast
    with t1 have "trace w' = trace w @ (t1 @ t2) \<and> filter is_mark (t1 @ t2) = []"
      by simp
    then show ?thesis by blast
  qed
qed

lemma quiet_if [intro!]: "quiet m1 \<Longrightarrow> quiet m2 \<Longrightarrow> quiet (if b then m1 else m2)"
  by simp

lemma quiet_read_text [intro!]: "quiet read_text"
  unfolding read_text_def by (intro quiet_seq quiet_read_bytes quiet_lift)

lemma quiet_read_info: "quiet (read_info_toml_version env)"
  unfolding read_info_toml_version_def by (intro quiet_seq quiet_if quiet_effect quiet_path_exists
      quiet_read_bytes quiet_lift quiet_raise) simp

lemma quiet_update: "quiet (update_info_toml_version prior_ver new_ver)"
  unfolding update_info_toml_version_def Let_def by (intro quiet_seq quiet_if quiet_effect quiet_path_exists
      quiet_read_text quiet_write_text quiet_lift quiet_raise) simp

lemma quiet_git_get_repo: "quiet (git_get_repo env)"
  unfolding git_get_repo_def by (intro quiet_seq quiet_effect quiet_lift) simp

lemma quiet_git_check: "quiet (git_check_in_repo env)"
  unfolding git_check_in_repo_def by (intro quiet_seq quiet_git_get_repo quiet_ret)

lemma quiet_repo_git: "quiet (repo_git env repo cmd)"
proof (cases repo)
  case None
  then show ?thesis by (simp add: repo_git_def quiet_raise)
next
  case (Some r)
  have "quiet (case git_run env cmd of None \<Rightarrow> ret () | Some e \<Rightarrow> raise e)"
    by (cases "git_run env cmd") (simp_all add: quiet_ret quiet_raise)
  with Some show ?thesis
    by (simp add: repo_git_def quiet_seq quiet_effect)
qed

lemma quiet_git_commit_version: "quiet (git_commit_version env prior_ver ver)"
  unfolding git_commit_version_def
  by (intro quiet_seq quiet_git_get_repo quiet_repo_git quiet_effect) simp

lemma quiet_build_plugin: "quiet (build_plugin env ver)"
  unfolding build_plugin_def Let_def
  by (intro quiet_seq quiet_lift quiet_effect) simp_all

lemma quiet_git_commit_new_release: "quiet (git_commit_new_release env ver)"
  unfolding git_commit_new_release_def
  by (intro quiet_seq quiet_git_get_repo quiet_repo_git quiet_effect) simp


subsection \<open>The shape of a run\<close>

lemma shapeI:
  assumes "\<And>w r w'. m w = (r, w') \<Longrightarrow> \<exists>t. trace w' = trace w @ t \<and> ok_run A ss r t"
  shows "shape A ss m"
  using assms unfolding shape_def by blast

lemma shapeD:
  assumes "shape A ss m" "m w = (r, w')"
  obtains t where "trace w' = trace w @ t" "ok_run A ss r t"
  using assms unfolding shape_def by blast

lemma ok_run_raise_first:
  assumes "filter is_mark t = []" "s \<in> A"
  shows "ok_run A (s # ss) (Inl e) (Call s # t @ [Raised s e])"
  unfolding ok_run_def using assms
  by (intro disjI2 exI [of _ 0] exI [of _ e] exI [of _ "Call s # t"]) simp

lemma ok_run_Cons:
  assumes "filter is_mark t = []" "ok_run A ss r evs"
  shows "ok_run (A) (s # ss) r (Call s # t @ evs)"
  using assms(2) unfolding ok_run_def
proof (elim disjE exE conjE)
  assume "r = Inr ()" "filter is_mark evs = map Call ss"
  with assms(1) show "r = Inr () \<and> filter is_mark (Call s # t @ evs) = map Call (s # ss) \<or>
    (\<exists>k e ta. k < length (s # ss) \<and> (s # ss) ! k \<in> A \<and> r = Inl e \<and>
       Call s # t @ evs = ta @ [Raised ((s # ss) ! k) e] \<and>
       filter is_mark ta = map Call (take (Suc k) (s # ss)))"
    by simp
next
  fix k e u
  assume k: "k < length ss" "ss ! k \<in> A" "r = Inl e" "evs = u @ [Raised (ss ! k) e]"
    "filter is_mark u = map Call (take (Suc k) ss)"
  have "Suc k < length (s # ss) \<and> (s # ss) ! Suc k \<in> A \<and> r = Inl e \<and>
       Call s # t @ evs = (Call s # t @ u) @ [Raised ((s # ss) ! Suc k) e] \<and>
       filter is_mark (Call s # t @ u) = map Call (take (Suc (Suc k)) (s # ss))"
    using k assms(1) by simp
  then show "r = Inr () \<and> filter is_mark (Call s # t @ evs) = map Call (s # ss) \<or>
    (\<exists>k e ta. k < length (s # ss) \<and> (s # ss) ! k \<in> A \<and> r = Inl e \<and>
       Call s # t @ evs = ta @ [Raised ((s # ss) ! k) e] \<and>
       filter is_mark ta = map Call (take (Suc k) (s # ss)))"
    by blast
qed

lemma ok_run_mono: "ok_run A ss r evs \<Longrightarrow> A \<subseteq> B \<Longrightarrow> ok_run B ss r evs"
  unfolding ok_run_def by blast

lemma run_step_cases:
  assumes "quiet m" "run_step s m w = (r, w')"
  obtains (raises) e t where "r = Inl e" "trace w' = trace w @ Call s # t @ [Raised s e]"
      "filter is_mark t = []" "\<exists>w1. m (emit (Call s) w) = (Inl e, w1)"
    | (returns) x t where "r = Inr x" "trace w' = trace w @ Call s # t" "filter is_mark t = []"
proof -
  obtain r1 w1 where m: "m (emit (Call s) w) = (r1, w1)"
    by (cases "m (emit (Call s) w)") auto
  from quietD [OF assms(1) m] obtain t where t: "trace w1 = trace (emit (Call s) w) @ t"
      "filter is_mark t = []"
    by blast
  show thesis
  proof (cases r1)
    case (Inl e)
    with m assms(2) have "r = Inl e" "w' = emit (Raised s e) w1"
      by (simp_all add: run_step_def)
    with t m Inl show thesis
      by (intro raises [of e t]) (auto simp: emit_def)
  next
    case (Inr x)
    with m assms(2) have "r = Inr x" "w' = w1"
      by (simp_all add: run_step_def)
    with t show thesis
      by (intro returns [of x t]) (auto simp: emit_def)
  qed
qed

lemma shape_last:
  assumes "quiet m"
  shows "shape {s} [s] (run_step s m)"
proof (rule shapeI)
  fix w r w'
  assume "run_step s m w = (r, w')"
  from assms this show "\<exists>t. trace w' = trace w @ t \<and> ok_run {s} [s] r t"
  proof (cases rule: run_step_cases)
    case (raises e t)
    then show ?thesis
      using ok_run_raise_first [of t s "{s}" "[]" e] by auto
  next
    case (returns x t)
    then have "ok_run {s} [s] r (Call s # t)"
      by (simp add: ok_run_def)
    with returns show ?thesis by auto
  qed
qed

lemma shape_seq:
  assumes "quiet m" "\<And>x. shape A ss (f x)"
  shows "shape (insert s A) (s # ss) (seq (run_step s m) f)"
proof (rule shapeI)
  fix w r w'
  assume run: "seq (run_step s m) f w = (r, w')"
  obtain r1 w1 where step: "run_step s m w = (r1, w1)"
    by (cases "run_step s m w") auto
  from assms(1) step show "\<exists>t. trace w' = trace w @ t \<and> ok_run (insert s A) (s # ss) r t"
  proof (cases rule: run_step_cases)
    case (raises e t)
    with run step have "r = Inl e" "w' = w1"
      by (simp_all add: seq_def)
    with raises show ?thesis
      using ok_run_raise_first [of t s "insert s A" ss e] by auto
  next
    case (returns x t)
    with run step have "f x w1 = (r, w')"
      by (simp add: seq_def)
    from shapeD [OF assms(2) this] obtain u where u: "trace w' = trace w1 @ u" "ok_run A ss r u"
      by blast
    from ok_run_Cons [OF returns(3) u(2)] have "ok_run A (s # ss) r (Call s # t @ u)" .
    then have "ok_run (insert s A) (s # ss) r (Call s # t @ u)"
      by (rule ok_run_mono) auto
    with returns(2) u(1) show ?thesis by auto
  qed
qed

subsection \<open>The order of the steps\<close>

lemma quiet_require_repo: "quiet (require_repo env)"
  unfolding require_repo_def
  by (intro quiet_seq quiet_git_check quiet_if quiet_raise quiet_ret)

lemma run_release_steps:
  "run_release env bump_level =
     seq (run_step CheckRepo (require_repo env)) (\<lambda>_.
     seq (run_step ReadVersion (read_info_toml_version env)) (\<lambda>prior_ver.
     seq (run_step Bump (lift (bump_version prior_ver bump_level))) (\<lambda>ver.
     seq (run_step WriteManifest (update_info_toml_version prior_ver ver)) (\<lambda>_.
     seq (run_step CommitVersion (git_commit_version env prior_ver ver)) (\<lambda>_.
     seq (run_step Build (build_plugin env ver)) (\<lambda>_.
     run_step CommitArtifacts (git_commit_new_release env ver)))))))"
  by (simp add: run_release_def require_repo_def)

lemma shape_release:
  "shape {CheckRepo, ReadVersion, Bump, WriteManifest, CommitVersion, Build, CommitArtifacts}
     release_order (run_release env bump_level)"
  unfolding run_release_steps release_order_def
  by (intro shape_seq shape_last quiet_require_repo quiet_read_info quiet_lift quiet_update
      quiet_git_commit_version quiet_build_plugin quiet_git_commit_new_release)

lemma events_since_run:
  "trace w' = trace w @ t \<Longrightarrow> events_since w w' = t"
  by (simp add: events_since_def)

text \<open>A final state of the machine stays as it is.\<close>

lemma advance_final: "outcome x \<noteq> None \<Longrightarrow> advance env bump_level x = x"
  by (cases "(env, bump_level, x)" rule: advance.cases) auto

lemma funpow_final: "outcome x \<noteq> None \<Longrightarrow> (advance env bump_level ^^ k) x = x"
  by (induction k) (simp_all add: advance_final)

lemma funpow_first: "(f ^^ Suc n) x = (f ^^ n) (f x)"
  by (simp add: funpow_swap1)

lemma outcome_Some:
  "outcome (ph, u) = Some (r, w') \<longleftrightarrow> w' = u \<and> (ph = Done \<and> r = Inr () \<or> (\<exists>s e. ph = Aborted s e \<and> r = Inl e))"
  by (cases ph) auto

text \<open>
  A transition and the rest of the machine's run are a step of \<^verbatim>\<open>run_release\<close> and the
  rest of the function.
\<close>

lemma attempt_seq:
  assumes "\<And>x u. outcome ((advance env bump_level ^^ n) (nxt x, u)) = Some (f x u)"
  shows "outcome ((advance env bump_level ^^ n) (attempt s m nxt w)) = Some (seq (run_step s m) f w)"
proof (cases "run_step s m w")
  case (Pair r u)
  show ?thesis
  proof (cases r)
    case (Inl e)
    with Pair show ?thesis
      by (simp add: attempt_def seq_def funpow_final)
  next
    case (Inr x)
    with Pair assms [of x u] show ?thesis
      by (simp add: attempt_def seq_def)
  qed
qed

lemma from_built:
  "outcome ((advance env bump_level ^^ Suc 0) (Built ver, w)) =
   Some (run_step CommitArtifacts (git_commit_new_release env ver) w)"
  by (cases "run_step CommitArtifacts (git_commit_new_release env ver) w")
     (auto simp: attempt_def split: sum.splits)

lemma from_committed:
  "outcome ((advance env bump_level ^^ Suc (Suc 0)) (VersionCommitted ver, w)) =
   Some (seq (run_step Build (build_plugin env ver)) (\<lambda>_.
         run_step CommitArtifacts (git_commit_new_release env ver)) w)"
  apply (subst funpow_first)
  apply (simp only: advance.simps)
  apply (rule attempt_seq)
  apply (rule from_built)
  done

lemma from_written:
  "outcome ((advance env bump_level ^^ Suc (Suc (Suc 0))) (ManifestWritten prior_ver ver, w)) =
   Some (seq (run_step CommitVersion (git_commit_version env prior_ver ver)) (\<lambda>_.
         seq (run_step Build (build_plugin env ver)) (\<lambda>_.
         run_step CommitArtifacts (git_commit_new_release env ver))) w)"
  apply (subst funpow_first)
  apply (simp only: advance.simps)
  apply (rule attempt_seq)
  apply (rule from_committed)
  done

lemma from_bumped:
  "outcome ((advance env bump_level ^^ Suc (Suc (Suc (Suc 0)))) (VersionBumped prior_ver ver, w)) =
   Some (seq (run_step WriteManifest (update_info_toml_version prior_ver ver)) (\<lambda>_.
         seq (run_step CommitVersion (git_commit_version env prior_ver ver)) (\<lambda>_.
         seq (run_step Build (build_plugin env ver)) (\<lambda>_.
         run_step CommitArtifacts (git_commit_new_release env ver)))) w)"
  apply (subst funpow_first)
  apply (simp only: advance.simps)
  apply (rule attempt_seq)
  apply (rule from_written)
  done

lemma from_read:
  "outcome ((advance env bump_level ^^ Suc (Suc (Suc (Suc (Suc 0))))) (VersionRead prior_ver, w)) =
   Some (seq (run_step Bump (lift (bump_version prior_ver bump_level))) (\<lambda>ver.
         seq (run_step WriteManifest (update_info_toml_version prior_ver ver)) (\<lambda>_.
         seq (run_step CommitVersion (git_commit_version env prior_ver ver)) (\<lambda>_.
         seq (run_step Build (build_plugin env ver)) (\<lambda>_.
         run_step CommitArtifacts (git_commit_new_release env ver))))) w)"
  apply (subst funpow_first)
  apply (simp only: advance.simps)
  apply (rule attempt_seq)
  apply (rule from_bumped)
  done

lemma from_checked:
  "outcome ((advance env bump_level ^^ Suc (Suc (Suc (Suc (Suc (Suc 0)))))) (RepoChecked, w)) =
   Some (seq (run_step ReadVersion (read_info_toml_version env)) (\<lambda>prior_ver.
         seq (run_step Bump (lift (bump_version prior_ver bump_level))) (\<lambda>ver.
         seq (run_step WriteManifest (update_info_toml_version prior_ver ver)) (\<lambda>_.
         seq (run_step CommitVersion (git_commit_version env prior_ver ver)) (\<lambda>_.
         seq (run_step Build (build_plugin env ver)) (\<lambda>_.
         run_step CommitArtifacts (git_commit_new_release env ver)))))) w)"
  apply (subst funpow_first)
  apply (simp only: advance.simps)
  apply (rule attempt_seq)
  apply (rule from_read)
  done

lemma from_start:
  "outcome ((advance env bump_level ^^ Suc (Suc (Suc (Suc (Suc (Suc (Suc 0))))))) (Start, w)) =
   Some (run_release env bump_level w)"
  unfolding run_release_steps
  apply (subst funpow_first)
  apply (simp only: advance.simps)
  apply (rule attempt_seq)
  apply (rule from_checked)
  done

lemma seven: "(7::nat) = Suc (Suc (Suc (Suc (Suc (Suc (Suc 0))))))"
  by simp

lemma machine_run:
  "outcome ((advance env bump_level ^^ 7) (Start, w)) = Some (run_release env bump_level w)"
  unfolding seven by (rule from_start)

lemma funpow_later:
  assumes "k \<le> j"
  shows "(f ^^ j) x = (f ^^ (j - k)) ((f ^^ k) x)"
proof -
  from assms have "j = (j - k) + k"
    by simp
  then have "(f ^^ j) x = (f ^^ ((j - k) + k)) x"
    by simp
  then show ?thesis
    by (simp only: funpow_add o_apply)
qed

lemma final_stays:
  assumes "outcome ((advance env bump_level ^^ k) x) \<noteq> None" "k \<le> j"
  shows "(advance env bump_level ^^ j) x = (advance env bump_level ^^ k) x"
  using funpow_later [OF assms(2), of "advance env bump_level" x] funpow_final [OF assms(1)]
  by simp

lemma final_is_run:
  assumes "(advance env bump_level ^^ k) (Start, w) = (ph, u)" "outcome (ph, u) \<noteq> None"
  shows "outcome (ph, u) = Some (run_release env bump_level w)"
proof (cases "k \<le> 7")
  case True
  from assms have "outcome ((advance env bump_level ^^ k) (Start, w)) \<noteq> None"
    by simp
  from final_stays [OF this True] assms(1) machine_run [of env bump_level w] show ?thesis
    by simp
next
  case False
  then have le: "7 \<le> k"
    by simp
  have "outcome ((advance env bump_level ^^ 7) (Start, w)) \<noteq> None"
    by (simp add: machine_run)
  from final_stays [OF this le] assms(1) machine_run [of env bump_level w] show ?thesis
    by simp
qed

text \<open>A transition adds events to the trace and takes none away.\<close>

lemma attempt_extends:
  assumes "quiet m"
  shows "prefix (trace w) (trace (snd (attempt s m nxt w)))"
proof -
  obtain r w' where run: "run_step s m w = (r, w')"
    by (cases "run_step s m w") auto
  from assms run have "prefix (trace w) (trace w')"
    by (cases rule: run_step_cases) (simp_all add: prefix_def)
  with run show ?thesis
    by (cases r) (simp_all add: attempt_def)
qed

lemma advance_extends: "prefix (trace (snd x)) (trace (snd (advance env bump_level x)))"
  by (cases "(env, bump_level, x)" rule: advance.cases)
     (simp_all add: attempt_extends quiet_require_repo quiet_read_info quiet_lift quiet_update
        quiet_git_commit_version quiet_build_plugin quiet_git_commit_new_release)

lemma funpow_extends: "prefix (trace (snd x)) (trace (snd ((advance env bump_level ^^ k) x)))"
proof (induction k)
  case 0
  show ?case by simp
next
  case (Suc k)
  from Suc advance_extends [where x = "(advance env bump_level ^^ k) x" and env = env and bump_level = bump_level] show ?case
    by (auto simp del: advance.simps intro: prefix_order.trans)
qed

lemma machine_prefix:
  assumes "(advance env bump_level ^^ k) (Start, w) = (ph, u)"
  shows "prefix (trace u) (trace (snd (run_release env bump_level w)))"
proof -
  obtain ph7 u7 where s7: "(advance env bump_level ^^ 7) (Start, w) = (ph7, u7)"
    by (cases "(advance env bump_level ^^ 7) (Start, w)") auto
  with machine_run [of env bump_level w] have fin: "snd (run_release env bump_level w) = u7"
    by (cases "run_release env bump_level w") (simp add: outcome_Some)
  show ?thesis
  proof (cases "k \<le> 7")
    case True
    from funpow_later [OF True, of "advance env bump_level" "(Start, w)"] assms s7
    have "(advance env bump_level ^^ (7 - k)) (ph, u) = (ph7, u7)"
      by simp
    with funpow_extends [where x = "(ph, u)" and env = env and bump_level = bump_level and k = "7 - k"] fin show ?thesis
      by simp
  next
    case False
    then have le: "7 \<le> k"
      by simp
    have "outcome ((advance env bump_level ^^ 7) (Start, w)) \<noteq> None"
      by (simp add: machine_run)
    from final_stays [OF this le] assms s7 fin show ?thesis
      by simp
  qed
qed

text \<open>
  C2. \<open>run_release\<close> is the linear state machine of the specification, started in
  \<open>Start\<close>: the check of the repository, then read version, bump, write manifest, commit
  version, build and commit artifacts, each a call of the step function of the script,
  in the world the step before has left. After seven transitions the machine is in a
  final state, which is what \<open>run_release\<close> returns or raises and the world it leaves.
  Whenever the machine is in \<open>Aborted\<close>, because a step has raised, \<open>run_release\<close> ends with
  that step's error in the world in which the step raised: no later step has acted,
  nothing is retried and nothing is undone. Whenever it is in \<open>Done\<close>, \<open>run_release\<close> has
  returned in that world. What the machine has done up to any transition is the
  beginning of what the run does. Among the events of a run, the calls of steps are
  those of the seven steps in this order when it returns, and those of the steps up to
  the one that raises when it raises, the raise being the last event of the run.
\<close>

theorem run_release_fail_fast:
  "outcome ((advance env bump_level ^^ 7) (Start, w)) = Some (run_release env bump_level w) \<and>
   (\<forall>k s e u. (advance env bump_level ^^ k) (Start, w) = (Aborted s e, u) \<longrightarrow>
      run_release env bump_level w = (Inl e, u)) \<and>
   (\<forall>k u. (advance env bump_level ^^ k) (Start, w) = (Done, u) \<longrightarrow>
      run_release env bump_level w = (Inr (), u)) \<and>
   (\<forall>k ph u. (advance env bump_level ^^ k) (Start, w) = (ph, u) \<longrightarrow>
      prefix (trace u) (trace (snd (run_release env bump_level w)))) \<and>
   (\<forall>r w'. run_release env bump_level w = (r, w') \<longrightarrow>
      r = Inr () \<and> marks_since w w' = map Call release_order \<or>
      (\<exists>k e t. k < length release_order \<and> r = Inl e \<and>
         events_since w w' = t @ [Raised (release_order ! k) e] \<and>
         filter is_mark t = map Call (take (Suc k) release_order)))"
proof (intro conjI allI impI)
  show "outcome ((advance env bump_level ^^ 7) (Start, w)) = Some (run_release env bump_level w)"
    by (rule machine_run)
next
  fix k s e u
  assume "(advance env bump_level ^^ k) (Start, w) = (Aborted s e, u)"
  from final_is_run [OF this] show "run_release env bump_level w = (Inl e, u)"
    by simp
next
  fix k u
  assume "(advance env bump_level ^^ k) (Start, w) = (Done, u)"
  from final_is_run [OF this] show "run_release env bump_level w = (Inr (), u)"
    by simp
next
  fix k ph u
  assume "(advance env bump_level ^^ k) (Start, w) = (ph, u)"
  then show "prefix (trace u) (trace (snd (run_release env bump_level w)))"
    by (rule machine_prefix)
next
  fix r w'
  assume run: "run_release env bump_level w = (r, w')"
  from shapeD [OF shape_release run] obtain t where t: "trace w' = trace w @ t"
    "ok_run {CheckRepo, ReadVersion, Bump, WriteManifest, CommitVersion, Build, CommitArtifacts}
       release_order r t"
    by blast
  from t(1) have "events_since w w' = t"
    by (rule events_since_run)
  with t(2) show "r = Inr () \<and> marks_since w w' = map Call release_order \<or>
      (\<exists>k e t. k < length release_order \<and> r = Inl e \<and>
         events_since w w' = t @ [Raised (release_order ! k) e] \<and>
         filter is_mark t = map Call (take (Suc k) release_order))"
    unfolding ok_run_def marks_since_def by auto
qed

subsection \<open>The check of the repository\<close>

lemma check_passes:
  assumes "workdir env = GitDir r" "\<not> bare r"
  shows "run_step CheckRepo (require_repo env) w =
         (Inr (), w\<lparr>trace := trace w @ [Call CheckRepo, RepoOpen]\<rparr>)"
  using assms
  by (simp add: run_step_def require_repo_def seq_def git_check_in_repo_def git_get_repo_def
      open_repo_def effect_def lift_def ret_def raise_def emit_def)

lemma check_no_repo:
  assumes "workdir env = NoGitDir"
  shows "run_step CheckRepo (require_repo env) w =
         (Inl InvalidGitRepositoryError,
          w\<lparr>trace := trace w @ [Call CheckRepo, RepoOpen, Raised CheckRepo InvalidGitRepositoryError]\<rparr>)"
  using assms
  by (simp add: run_step_def require_repo_def seq_def git_check_in_repo_def git_get_repo_def
      open_repo_def effect_def lift_def ret_def raise_def emit_def)

lemma check_bare:
  assumes "workdir env = GitDir r" "bare r"
  shows "run_step CheckRepo (require_repo env) w =
         (Inl NotARepository,
          w\<lparr>trace := trace w @ [Call CheckRepo, RepoOpen, Raised CheckRepo NotARepository]\<rparr>)"
  using assms
  by (simp add: run_step_def require_repo_def seq_def git_check_in_repo_def git_get_repo_def
      open_repo_def effect_def lift_def ret_def raise_def emit_def)

lemma workdir_cases:
  obtains (none) "workdir env = NoGitDir"
    | (bare) r where "workdir env = GitDir r" "bare r"
    | (tree) r where "workdir env = GitDir r" "\<not> bare r"
  by (cases "workdir env") auto

lemma check_raises:
  assumes "\<not> (\<exists>r. workdir env = GitDir r \<and> \<not> bare r)"
  shows "\<exists>e. run_step CheckRepo (require_repo env) w =
           (Inl e, w\<lparr>trace := trace w @ [Call CheckRepo, RepoOpen, Raised CheckRepo e]\<rparr>)"
proof (cases env rule: workdir_cases)
  case none
  then show ?thesis
    by (intro exI [of _ InvalidGitRepositoryError]) (rule check_no_repo)
next
  case (bare r)
  then show ?thesis
    by (intro exI [of _ NotARepository]) (rule check_bare)
next
  case (tree r)
  with assms show ?thesis
    by blast
qed

lemma run_release_check_raises:
  assumes "run_step CheckRepo (require_repo env) w = (Inl e, u)"
  shows "run_release env bump_level w = (Inl e, u)"
  unfolding run_release_steps
  by (subst seq_def) (simp only: assms prod.case sum.case)








subsection \<open>The build step\<close>

lemma build_plugin_returns:
  assumes "decode_utf8 (stdout (build_sh env)) = Inr out"
  shows "build_plugin env ver w =
           (Inr (),
            w\<lparr>trace := trace w @
                [Popen ''./build.sh release'', Log out,
                 Log (''Built plugin: '' @ version_to_str ver @ ''; return code: '' @
                      (case returncode (build_sh env) of None \<Rightarrow> ''None'' | Some rc \<Rightarrow> py_str rc))]\<rparr>)"
  using assms by (simp add: build_plugin_def seq_def effect_def lift_def emit_def Let_def)

lemma build_plugin_raises:
  assumes "decode_utf8 (stdout (build_sh env)) = Inl e"
  shows "build_plugin env ver w = (Inl e, w\<lparr>trace := trace w @ [Popen ''./build.sh release'']\<rparr>)"
  using assms by (simp add: build_plugin_def seq_def effect_def lift_def emit_def Let_def)

lemma decode_utf8_Inl: "decode_utf8 bs = Inl e \<Longrightarrow> e = UnicodeDecodeError"
  by (simp add: decode_utf8_def split: if_splits)

lemma five_more: "(7::nat) - 5 = Suc (Suc 0)"
  by simp

lemma run_from_build:
  assumes "(advance env bump_level ^^ 5) (Start, w) = (VersionCommitted ver, w5)"
  shows "run_release env bump_level w =
         seq (run_step Build (build_plugin env ver)) (\<lambda>_.
         run_step CommitArtifacts (git_commit_new_release env ver)) w5"
proof -
  have "(5::nat) \<le> 7"
    by simp
  from funpow_later [OF this, of "advance env bump_level" "(Start, w)"] assms
  have "(advance env bump_level ^^ 7) (Start, w) =
        (advance env bump_level ^^ Suc (Suc 0)) (VersionCommitted ver, w5)"
    by (simp only: five_more)
  with machine_run [of env bump_level w] from_committed [of env bump_level ver w5]
  show ?thesis
    by simp
qed

lemma reached_has_repo:
  assumes "(advance env bump_level ^^ Suc n) (Start, w) = (ph, u)" "outcome (ph, u) = None"
  shows "\<exists>r. workdir env = GitDir r \<and> \<not> bare r"
proof (rule ccontr)
  assume "\<not> (\<exists>r. workdir env = GitDir r \<and> \<not> bare r)"
  from check_raises [OF this, of w] obtain e u1 where
    "run_step CheckRepo (require_repo env) w = (Inl e, u1)"
    by blast
  then have "advance env bump_level (Start, w) = (Aborted CheckRepo e, u1)"
    by (simp add: attempt_def)
  then have "(advance env bump_level ^^ Suc n) (Start, w) = (Aborted CheckRepo e, u1)"
    by (simp only: funpow_first) (simp add: funpow_final)
  with assms show False
    by auto
qed

lemma commit_release_starts:
  assumes "workdir env = GitDir r"
  shows "\<exists>t. trace (snd (run_step CommitArtifacts (git_commit_new_release env ver) u)) =
          trace u @ Call CommitArtifacts # RepoOpen # Git (Add ''./*.op'') # t"
  using assms
  by (cases "git_run env (Add ''./*.op'')"; cases "git_run env (Commit (''Release: '' @ version_to_str ver))")
     (simp_all add: run_step_def git_commit_new_release_def git_get_repo_def open_repo_def repo_git_def
        seq_def effect_def lift_def ret_def raise_def emit_def)

lemma five: "(5::nat) = Suc 4"
  by simp

text \<open>
  C3, as the code has it. \<open>build_plugin\<close> starts the process, decodes its output as UTF-8,
  logs it and logs the return code; it looks at neither the exit status nor the return
  code. When the output is well-formed UTF-8 it returns, whatever the exit status and the
  return code attribute are; a run of \<open>run_release\<close> that has come to the build step then
  goes on with the step that commits the artifacts, in the world the build has left, and
  that step opens the repository and adds the artifacts. When the output is not
  well-formed UTF-8, \<open>build_plugin\<close> raises \<open>UnicodeDecodeError\<close> after starting the process,
  and a run that has come to the build step ends there with this error: the artifacts
  are not committed.
\<close>

theorem build_never_fails_on_text:
  "(decode_utf8 (stdout (build_sh env)) = Inr out \<longrightarrow>
      build_plugin env ver u =
        (Inr (),
         u\<lparr>trace := trace u @
             [Popen ''./build.sh release'', Log out,
              Log (''Built plugin: '' @ version_to_str ver @ ''; return code: '' @
                   (case returncode (build_sh env) of None \<Rightarrow> ''None'' | Some rc \<Rightarrow> py_str rc))]\<rparr>) \<and>
      ((advance env bump_level ^^ 5) (Start, w) = (VersionCommitted ver, w5) \<longrightarrow>
         run_release env bump_level w =
           run_step CommitArtifacts (git_commit_new_release env ver)
             (w5\<lparr>trace := trace w5 @
                [Call Build, Popen ''./build.sh release'', Log out,
                 Log (''Built plugin: '' @ version_to_str ver @ ''; return code: '' @
                      (case returncode (build_sh env) of None \<Rightarrow> ''None'' | Some rc \<Rightarrow> py_str rc))]\<rparr>) \<and>
         (\<exists>t. trace (snd (run_release env bump_level w)) =
            trace w5 @
              [Call Build, Popen ''./build.sh release'', Log out,
               Log (''Built plugin: '' @ version_to_str ver @ ''; return code: '' @
                    (case returncode (build_sh env) of None \<Rightarrow> ''None'' | Some rc \<Rightarrow> py_str rc)),
               Call CommitArtifacts, RepoOpen, Git (Add ''./*.op'')] @ t))) \<and>
   (decode_utf8 (stdout (build_sh env)) = Inl e \<longrightarrow>
      e = UnicodeDecodeError \<and>
      build_plugin env ver u =
        (Inl UnicodeDecodeError, u\<lparr>trace := trace u @ [Popen ''./build.sh release'']\<rparr>) \<and>
      ((advance env bump_level ^^ 5) (Start, w) = (VersionCommitted ver, w5) \<longrightarrow>
         run_release env bump_level w =
           (Inl UnicodeDecodeError,
            w5\<lparr>trace := trace w5 @
               [Call Build, Popen ''./build.sh release'', Raised Build UnicodeDecodeError]\<rparr>)))"
proof (rule conjI)
  let ?msg = "''Built plugin: '' @ version_to_str ver @ ''; return code: '' @
                   (case returncode (build_sh env) of None \<Rightarrow> ''None'' | Some rc \<Rightarrow> py_str rc)"
  let ?w6 = "w5\<lparr>trace := trace w5 @ [Call Build, Popen ''./build.sh release'', Log out, Log ?msg]\<rparr>"
  show "decode_utf8 (stdout (build_sh env)) = Inr out \<longrightarrow>
      build_plugin env ver u =
        (Inr (), u\<lparr>trace := trace u @ [Popen ''./build.sh release'', Log out, Log ?msg]\<rparr>) \<and>
      ((advance env bump_level ^^ 5) (Start, w) = (VersionCommitted ver, w5) \<longrightarrow>
         run_release env bump_level w =
           run_step CommitArtifacts (git_commit_new_release env ver) ?w6 \<and>
         (\<exists>t. trace (snd (run_release env bump_level w)) =
            trace w5 @
              [Call Build, Popen ''./build.sh release'', Log out, Log ?msg,
               Call CommitArtifacts, RepoOpen, Git (Add ''./*.op'')] @ t))"
  proof (rule impI)
    assume d: "decode_utf8 (stdout (build_sh env)) = Inr out"
    have b: "build_plugin env ver u =
        (Inr (), u\<lparr>trace := trace u @ [Popen ''./build.sh release'', Log out, Log ?msg]\<rparr>)"
      using d by (rule build_plugin_returns)
    have r: "run_release env bump_level w =
           run_step CommitArtifacts (git_commit_new_release env ver) ?w6 \<and>
         (\<exists>t. trace (snd (run_release env bump_level w)) =
            trace w5 @
              [Call Build, Popen ''./build.sh release'', Log out, Log ?msg,
               Call CommitArtifacts, RepoOpen, Git (Add ''./*.op'')] @ t)"
      if reach: "(advance env bump_level ^^ 5) (Start, w) = (VersionCommitted ver, w5)"
    proof -
      have step: "run_step Build (build_plugin env ver) w5 = (Inr (), ?w6)"
        by (simp add: run_step_def emit_def build_plugin_returns [OF d])
      have run: "run_release env bump_level w =
           run_step CommitArtifacts (git_commit_new_release env ver) ?w6"
        unfolding run_from_build [OF reach]
        by (subst seq_def) (simp only: step prod.case sum.case)
      from reach have "(advance env bump_level ^^ Suc 4) (Start, w) = (VersionCommitted ver, w5)"
        by (simp only: five)
      from reached_has_repo [OF this] obtain r where "workdir env = GitDir r"
        by auto
      from commit_release_starts [OF this, of ver ?w6] run show ?thesis
        by simp
    qed
    from b r show "build_plugin env ver u =
        (Inr (), u\<lparr>trace := trace u @ [Popen ''./build.sh release'', Log out, Log ?msg]\<rparr>) \<and>
      ((advance env bump_level ^^ 5) (Start, w) = (VersionCommitted ver, w5) \<longrightarrow>
         run_release env bump_level w =
           run_step CommitArtifacts (git_commit_new_release env ver) ?w6 \<and>
         (\<exists>t. trace (snd (run_release env bump_level w)) =
            trace w5 @
              [Call Build, Popen ''./build.sh release'', Log out, Log ?msg,
               Call CommitArtifacts, RepoOpen, Git (Add ''./*.op'')] @ t))"
      by blast
  qed
next
  show "decode_utf8 (stdout (build_sh env)) = Inl e \<longrightarrow>
      e = UnicodeDecodeError \<and>
      build_plugin env ver u =
        (Inl UnicodeDecodeError, u\<lparr>trace := trace u @ [Popen ''./build.sh release'']\<rparr>) \<and>
      ((advance env bump_level ^^ 5) (Start, w) = (VersionCommitted ver, w5) \<longrightarrow>
         run_release env bump_level w =
           (Inl UnicodeDecodeError,
            w5\<lparr>trace := trace w5 @
               [Call Build, Popen ''./build.sh release'', Raised Build UnicodeDecodeError]\<rparr>))"
  proof (rule impI)
    assume "decode_utf8 (stdout (build_sh env)) = Inl e"
    with decode_utf8_Inl [OF this] have e: "e = UnicodeDecodeError"
      and d: "decode_utf8 (stdout (build_sh env)) = Inl UnicodeDecodeError"
      by simp_all
    have b: "build_plugin env ver u =
        (Inl UnicodeDecodeError, u\<lparr>trace := trace u @ [Popen ''./build.sh release'']\<rparr>)"
      using d by (rule build_plugin_raises)
    have r: "run_release env bump_level w =
           (Inl UnicodeDecodeError,
            w5\<lparr>trace := trace w5 @
               [Call Build, Popen ''./build.sh release'', Raised Build UnicodeDecodeError]\<rparr>)"
      if reach: "(advance env bump_level ^^ 5) (Start, w) = (VersionCommitted ver, w5)"
    proof -
      have step: "run_step Build (build_plugin env ver) w5 =
          (Inl UnicodeDecodeError,
           w5\<lparr>trace := trace w5 @
               [Call Build, Popen ''./build.sh release'', Raised Build UnicodeDecodeError]\<rparr>)"
        by (simp add: run_step_def emit_def build_plugin_raises [OF d])
      show ?thesis
        unfolding run_from_build [OF reach]
        by (subst seq_def) (simp only: step prod.case sum.case)
    qed
    from e b r show "e = UnicodeDecodeError \<and>
      build_plugin env ver u =
        (Inl UnicodeDecodeError, u\<lparr>trace := trace u @ [Popen ''./build.sh release'']\<rparr>) \<and>
      ((advance env bump_level ^^ 5) (Start, w) = (VersionCommitted ver, w5) \<longrightarrow>
         run_release env bump_level w =
           (Inl UnicodeDecodeError,
            w5\<lparr>trace := trace w5 @
               [Call Build, Popen ''./build.sh release'', Raised Build UnicodeDecodeError]\<rparr>))"
      by blast
  qed
qed

subsection \<open>The manifest reader\<close>

lemma read_without_name:
  assumes "toml_load env text = Inr info" "meta_entry info ''name'' = None"
  shows "\<exists>e. (e = KeyError ''meta'' \<or> e = KeyError ''version'' \<or> e = KeyError ''name'' \<or> e = TypeError) \<and>
           (meta_entry info ''version'' \<noteq> None \<longrightarrow> e = KeyError ''name'') \<and>
           (\<forall>w. manifest w = Some text \<longrightarrow>
              read_info_toml_version env w = (Inl e, w\<lparr>trace := trace w @ [PathExists, ReadText]\<rparr>))"
proof -
  note defs = read_info_toml_version_def seq_def path_exists_def read_bytes_def lift_def emit_def
    meta_entry_def
  consider (no_table) "\<forall>kvs. info \<noteq> PDict kvs"
    | (no_meta) kvs where "info = PDict kvs" "map_of kvs ''meta'' = None"
    | (meta_no_table) kvs meta where "info = PDict kvs" "map_of kvs ''meta'' = Some meta"
        "\<forall>m. meta \<noteq> PDict m"
    | (no_version) kvs m where "info = PDict kvs" "map_of kvs ''meta'' = Some (PDict m)"
        "map_of m ''version'' = None"
    | (version) kvs m v where "info = PDict kvs" "map_of kvs ''meta'' = Some (PDict m)"
        "map_of m ''version'' = Some v"
  proof (cases info)
    case (PDict kvs)
    show ?thesis
    proof (cases "map_of kvs ''meta''")
      case None
      with PDict show ?thesis by (rule no_meta)
    next
      case (Some meta)
      show ?thesis
      proof (cases "\<exists>m. meta = PDict m")
        case True
        then obtain m where m: "meta = PDict m" ..
        with PDict Some show ?thesis
          by (cases "map_of m ''version''") (auto intro: no_version version)
      next
        case False
        with PDict Some show ?thesis
          by (intro meta_no_table) auto
      qed
    qed
  qed (auto intro: no_table)
  then show ?thesis
  proof cases
    case no_table
    with assms(1) show ?thesis
      by (intro exI [of _ TypeError]) (cases info; simp add: defs)
  next
    case no_meta
    with assms(1) show ?thesis
      by (intro exI [of _ "KeyError ''meta''"]) (simp add: defs)
  next
    case meta_no_table
    with assms(1) show ?thesis
      by (intro exI [of _ TypeError]) (cases meta; simp add: defs)
  next
    case no_version
    with assms(1) show ?thesis
      by (intro exI [of _ "KeyError ''version''"]) (simp add: defs)
  next
    case version
    with assms have "map_of m ''name'' = None"
      by (simp add: meta_entry_def)
    with version assms(1) show ?thesis
      by (intro exI [of _ "KeyError ''name''"]) (simp add: defs)
  qed
qed

lemma run_release_read_raises:
  assumes "workdir env = GitDir r" "\<not> bare r"
    and "read_info_toml_version env (w\<lparr>trace := trace w @ [Call CheckRepo, RepoOpen, Call ReadVersion]\<rparr>) =
           (Inl e, w\<lparr>trace := trace w @ [Call CheckRepo, RepoOpen, Call ReadVersion] @ t\<rparr>)"
  shows "run_release env bump_level w =
           (Inl e, w\<lparr>trace := trace w @ [Call CheckRepo, RepoOpen, Call ReadVersion] @ t @
                                 [Raised ReadVersion e]\<rparr>)"
proof -
  have "run_step ReadVersion (read_info_toml_version env) (w\<lparr>trace := trace w @ [Call CheckRepo, RepoOpen]\<rparr>) =
        (Inl e, w\<lparr>trace := trace w @ [Call CheckRepo, RepoOpen, Call ReadVersion] @ t @
                                 [Raised ReadVersion e]\<rparr>)"
    using assms(3) by (simp add: run_step_def emit_def)
  then show ?thesis
    unfolding run_release_steps
    by (subst seq_def, simp only: check_passes [OF assms(1,2)] prod.case sum.case)
       (subst seq_def, simp only: prod.case sum.case)
qed

text \<open>
  C10. The reader needs the name although it only logs it. When the parsed manifest has
  no entry \<^verbatim>\<open>meta.name\<close> (or no table \<^verbatim>\<open>meta\<close>), \<open>read_info_toml_version\<close> raises after
  reading the file, with a \<open>KeyError\<close> or a \<open>TypeError\<close>; when \<^verbatim>\<open>meta.version\<close> is there the
  error is the \<open>KeyError\<close> of the name. A run of \<open>run_release\<close> then ends in the read step
  (or already in the check of the repository): no version is bumped, nothing is written
  and no git command is issued.
\<close>

theorem read_requires_name:
  assumes "manifest w = Some text" "toml_load env text = Inr info" "meta_entry info ''name'' = None"
  shows "\<exists>e. (e = KeyError ''meta'' \<or> e = KeyError ''version'' \<or> e = KeyError ''name'' \<or> e = TypeError) \<and>
           (meta_entry info ''version'' \<noteq> None \<longrightarrow> e = KeyError ''name'') \<and>
           read_info_toml_version env w = (Inl e, w\<lparr>trace := trace w @ [PathExists, ReadText]\<rparr>) \<and>
           (run_release env bump_level w =
              (Inl e, w\<lparr>trace := trace w @ [Call CheckRepo, RepoOpen, Call ReadVersion, PathExists,
                                            ReadText, Raised ReadVersion e]\<rparr>) \<or>
            (\<exists>e'. run_release env bump_level w =
              (Inl e', w\<lparr>trace := trace w @ [Call CheckRepo, RepoOpen, Raised CheckRepo e']\<rparr>)))"
proof -
  from read_without_name [OF assms(2,3)] obtain e where
    e: "e = KeyError ''meta'' \<or> e = KeyError ''version'' \<or> e = KeyError ''name'' \<or> e = TypeError"
      "meta_entry info ''version'' \<noteq> None \<longrightarrow> e = KeyError ''name''"
    and rd: "\<And>w. manifest w = Some text \<Longrightarrow>
      read_info_toml_version env w = (Inl e, w\<lparr>trace := trace w @ [PathExists, ReadText]\<rparr>)"
    by blast
  have run: "run_release env bump_level w =
              (Inl e, w\<lparr>trace := trace w @ [Call CheckRepo, RepoOpen, Call ReadVersion, PathExists,
                                            ReadText, Raised ReadVersion e]\<rparr>) \<or>
            (\<exists>e'. run_release env bump_level w =
              (Inl e', w\<lparr>trace := trace w @ [Call CheckRepo, RepoOpen, Raised CheckRepo e']\<rparr>))"
  proof (cases "\<exists>r. workdir env = GitDir r \<and> \<not> bare r")
    case True
    then obtain r where r: "workdir env = GitDir r" "\<not> bare r"
      by blast
    have "read_info_toml_version env (w\<lparr>trace := trace w @ [Call CheckRepo, RepoOpen, Call ReadVersion]\<rparr>) =
           (Inl e, w\<lparr>trace := trace w @ [Call CheckRepo, RepoOpen, Call ReadVersion] @
                                 [PathExists, ReadText]\<rparr>)"
      using rd [of "w\<lparr>trace := trace w @ [Call CheckRepo, RepoOpen, Call ReadVersion]\<rparr>"] assms(1)
      by simp
    from run_release_read_raises [OF r this] show ?thesis
      by simp
  next
    case False
    from check_raises [OF this, of w] obtain e' where
      "run_step CheckRepo (require_repo env) w =
         (Inl e', w\<lparr>trace := trace w @ [Call CheckRepo, RepoOpen, Raised CheckRepo e']\<rparr>)"
      by blast
    from run_release_check_raises [OF this] show ?thesis
      by blast
  qed
  from e rd [OF assms(1)] run show ?thesis
    by blast
qed

subsection \<open>Example runs\<close>

lemma version_from_str_010: "version_from_str ''0.1.0'' = Inr (0, 1, 0)"
  by code_simp

lemma text_demo: "text_of ''name = Demo version = 0.1.0'' = Inr ''name = Demo version = 0.1.0''"
  by code_simp

lemma occurrences_demo: "occurrences ''0.1.0'' ''name = Demo version = 0.1.0'' = [22]"
  by code_simp

lemma str_replace_demo:
  "str_replace ''name = Demo version = 0.1.0'' ''0.1.0'' ''0.1.1'' = ''name = Demo version = 0.1.1''"
  by code_simp

lemma decode_ok: "decode_utf8 ''ok'' = Inr ''ok''"
  by code_simp

lemma decode_bad: "decode_utf8 [CHR 0xFF] = Inl UnicodeDecodeError"
  by code_simp

lemma bump_demo: "bump_version (0, 1, 0) ''patch'' = Inr (0, 1, 1)"
  by (simp add: bump_version_def)

text \<open>The steps of the example, for every environment that parses and commits as the example does.\<close>

lemma demo_read:
  assumes "toml_load env = toml_load demo_env"
  shows "read_info_toml_version env \<lparr>manifest = Some ''name = Demo version = 0.1.0'', trace = t\<rparr> =
   (Inr (0, 1, 0),
    \<lparr>manifest = Some ''name = Demo version = 0.1.0'',
       trace = t @ [PathExists, ReadText, LogRead (PStr ''Demo'') (PStr ''0.1.0'')]\<rparr>)"
  using assms
  by (simp add: read_info_toml_version_def seq_def path_exists_def read_bytes_def lift_def
      effect_def emit_def demo_env_def version_from_str_010)

lemma demo_update:
  "update_info_toml_version (0, 1, 0) (0, 1, 1)
     \<lparr>manifest = Some ''name = Demo version = 0.1.0'', trace = t\<rparr> =
   (Inr (),
    \<lparr>manifest = Some ''name = Demo version = 0.1.1'',
       trace = t @ [PathExists, ReadText, WriteText ''name = Demo version = 0.1.1'',
                    Log ''Wrote new info.toml with updated version: 0.1.1'']\<rparr>)"
  by (simp add: update_present [OF _ text_demo] Let_def
      version_to_str_010 version_to_str_011 occurrences_demo str_replace_demo)

lemma demo_commit_version:
  assumes "workdir env = GitDir r" "git_run env = git_run demo_env"
  shows "git_commit_version env (0, 1, 0) (0, 1, 1) \<lparr>manifest = m, trace = t\<rparr> =
   (Inr (),
    \<lparr>manifest = m,
       trace = t @ [RepoOpen, Git (Add ''info.toml''), Git (Commit ''Version: 0.1.1''),
                    Git (Tag ''0.1.1''), Log ''Committed version bump from 0.1.0 to 0.1.1'']\<rparr>)"
  using assms
  by (simp add: git_commit_version_def git_get_repo_def open_repo_def repo_git_def seq_def
      effect_def lift_def ret_def emit_def demo_env_def version_to_str_010 version_to_str_011)

lemma demo_commit_release:
  assumes "workdir env = GitDir r" "git_run env = git_run demo_env"
  shows "git_commit_new_release env (0, 1, 1) \<lparr>manifest = m, trace = t\<rparr> =
   (Inr (),
    \<lparr>manifest = m,
       trace = t @ [RepoOpen, Git (Add ''./*.op''), Git (Commit ''Release: 0.1.1''),
                    Log ''Committed build for version: 0.1.1'']\<rparr>)"
  using assms
  by (simp add: git_commit_new_release_def git_get_repo_def open_repo_def repo_git_def seq_def
      effect_def lift_def ret_def emit_def demo_env_def version_to_str_011)

lemma demo_reaches_build:
  assumes "workdir env = GitDir r" "\<not> bare r" "toml_load env = toml_load demo_env"
    "git_run env = git_run demo_env"
  shows "(advance env ''patch'' ^^ 5) (Start, demo_world) =
   (VersionCommitted (0, 1, 1),
    \<lparr>manifest = Some ''name = Demo version = 0.1.1'',
     trace =
       [Call CheckRepo, RepoOpen, Call ReadVersion, PathExists, ReadText,
        LogRead (PStr ''Demo'') (PStr ''0.1.0''), Call Bump, Call WriteManifest, PathExists,
        ReadText, WriteText ''name = Demo version = 0.1.1'',
        Log ''Wrote new info.toml with updated version: 0.1.1'', Call CommitVersion, RepoOpen,
        Git (Add ''info.toml''), Git (Commit ''Version: 0.1.1''), Git (Tag ''0.1.1''),
        Log ''Committed version bump from 0.1.0 to 0.1.1'']\<rparr>)"
proof -
  have s1: "advance env ''patch'' (Start, demo_world) =
     (RepoChecked,
      \<lparr>manifest = Some ''name = Demo version = 0.1.0'',
       trace =
         [Call CheckRepo, RepoOpen]\<rparr>)"
    by (simp add: attempt_def check_passes [OF assms(1,2)] demo_world_def)
  have s2: "advance env ''patch''
     (RepoChecked,
      \<lparr>manifest = Some ''name = Demo version = 0.1.0'',
       trace =
         [Call CheckRepo, RepoOpen]\<rparr>) =
     (VersionRead (0, 1, 0),
      \<lparr>manifest = Some ''name = Demo version = 0.1.0'',
       trace =
         [Call CheckRepo, RepoOpen, Call ReadVersion, PathExists, ReadText,
          LogRead (PStr ''Demo'') (PStr ''0.1.0'')]\<rparr>)"
    by (simp add: attempt_def run_step_def emit_def demo_read [OF assms(3)])
  have s3: "advance env ''patch''
     (VersionRead (0, 1, 0),
      \<lparr>manifest = Some ''name = Demo version = 0.1.0'',
       trace =
         [Call CheckRepo, RepoOpen, Call ReadVersion, PathExists, ReadText,
          LogRead (PStr ''Demo'') (PStr ''0.1.0'')]\<rparr>) =
     (VersionBumped (0, 1, 0) (0, 1, 1),
      \<lparr>manifest = Some ''name = Demo version = 0.1.0'',
       trace =
         [Call CheckRepo, RepoOpen, Call ReadVersion, PathExists, ReadText,
          LogRead (PStr ''Demo'') (PStr ''0.1.0''), Call Bump]\<rparr>)"
    by (simp add: attempt_def run_step_def emit_def lift_def bump_demo)
  have s4: "advance env ''patch''
     (VersionBumped (0, 1, 0) (0, 1, 1),
      \<lparr>manifest = Some ''name = Demo version = 0.1.0'',
       trace =
         [Call CheckRepo, RepoOpen, Call ReadVersion, PathExists, ReadText,
          LogRead (PStr ''Demo'') (PStr ''0.1.0''), Call Bump]\<rparr>) =
     (ManifestWritten (0, 1, 0) (0, 1, 1),
      \<lparr>manifest = Some ''name = Demo version = 0.1.1'',
       trace =
         [Call CheckRepo, RepoOpen, Call ReadVersion, PathExists, ReadText,
          LogRead (PStr ''Demo'') (PStr ''0.1.0''), Call Bump, Call WriteManifest, PathExists,
          ReadText, WriteText ''name = Demo version = 0.1.1'',
          Log ''Wrote new info.toml with updated version: 0.1.1'']\<rparr>)"
    by (simp add: attempt_def run_step_def emit_def demo_update)
  have s5: "advance env ''patch''
     (ManifestWritten (0, 1, 0) (0, 1, 1),
      \<lparr>manifest = Some ''name = Demo version = 0.1.1'',
       trace =
         [Call CheckRepo, RepoOpen, Call ReadVersion, PathExists, ReadText,
          LogRead (PStr ''Demo'') (PStr ''0.1.0''), Call Bump, Call WriteManifest, PathExists,
          ReadText, WriteText ''name = Demo version = 0.1.1'',
          Log ''Wrote new info.toml with updated version: 0.1.1'']\<rparr>) =
     (VersionCommitted (0, 1, 1),
      \<lparr>manifest = Some ''name = Demo version = 0.1.1'',
       trace =
         [Call CheckRepo, RepoOpen, Call ReadVersion, PathExists, ReadText,
          LogRead (PStr ''Demo'') (PStr ''0.1.0''), Call Bump, Call WriteManifest, PathExists,
          ReadText, WriteText ''name = Demo version = 0.1.1'',
          Log ''Wrote new info.toml with updated version: 0.1.1'', Call CommitVersion, RepoOpen,
          Git (Add ''info.toml''), Git (Commit ''Version: 0.1.1''), Git (Tag ''0.1.1''),
          Log ''Committed version bump from 0.1.0 to 0.1.1'']\<rparr>)"
    by (simp add: attempt_def run_step_def emit_def demo_commit_version [OF assms(1,4)])
  have "(advance env ''patch'' ^^ 5) (Start, demo_world) =
        advance env ''patch'' (advance env ''patch'' (advance env ''patch''
          (advance env ''patch'' (advance env ''patch'' (Start, demo_world)))))"
    by (simp add: eval_nat_numeral del: advance.simps)
  then show ?thesis
    by (simp only: s1 s2 s3 s4 s5)
qed

lemma demo_run:
  assumes "workdir env = GitDir r" "\<not> bare r" "toml_load env = toml_load demo_env"
    "git_run env = git_run demo_env" "build_sh env = build_sh demo_env"
  shows "run_release env ''patch'' demo_world =
    (Inr (),
     \<lparr>manifest = Some ''name = Demo version = 0.1.1'',
      trace =
        [Call CheckRepo, RepoOpen, Call ReadVersion, PathExists, ReadText,
         LogRead (PStr ''Demo'') (PStr ''0.1.0''), Call Bump, Call WriteManifest, PathExists,
         ReadText, WriteText ''name = Demo version = 0.1.1'',
         Log ''Wrote new info.toml with updated version: 0.1.1'', Call CommitVersion, RepoOpen,
         Git (Add ''info.toml''), Git (Commit ''Version: 0.1.1''), Git (Tag ''0.1.1''),
         Log ''Committed version bump from 0.1.0 to 0.1.1'', Call Build,
         Popen ''./build.sh release'', Log ''ok'',
         Log ''Built plugin: 0.1.1; return code: None'', Call CommitArtifacts, RepoOpen,
         Git (Add ''./*.op''), Git (Commit ''Release: 0.1.1''),
         Log ''Committed build for version: 0.1.1'']\<rparr>)"
proof -
  have d: "decode_utf8 (stdout (build_sh env)) = Inr ''ok''"
    by (simp add: assms(5) demo_env_def decode_ok)
  have rc: "returncode (build_sh env) = None"
    by (simp add: assms(5) demo_env_def)
  show ?thesis
    unfolding run_from_build [OF demo_reaches_build [OF assms(1-4)]]
    by (simp add: seq_def run_step_def emit_def build_plugin_returns [OF d] rc
        version_to_str_011 demo_commit_release [OF assms(1,4)])
qed

lemma demo_env_facts:
  "workdir demo_env = GitDir (Repo False 3)" "\<not> bare (Repo False 3)"
  "toml_load demo_env = toml_load demo_env" "git_run demo_env = git_run demo_env"
  "build_sh demo_env = build_sh demo_env"
  by (simp_all add: demo_env_def)


lemma bad_output_env_facts:
  "workdir bad_output_env = GitDir (Repo False 3)" "\<not> bare (Repo False 3)"
  "toml_load bad_output_env = toml_load demo_env" "git_run bad_output_env = git_run demo_env"
  by (simp_all add: bad_output_env_def demo_env_def)

lemma bad_output_run:
  "run_release bad_output_env ''patch'' demo_world =
    (Inl UnicodeDecodeError,
     \<lparr>manifest = Some ''name = Demo version = 0.1.1'',
      trace =
        [Call CheckRepo, RepoOpen, Call ReadVersion, PathExists, ReadText,
         LogRead (PStr ''Demo'') (PStr ''0.1.0''), Call Bump, Call WriteManifest, PathExists,
         ReadText, WriteText ''name = Demo version = 0.1.1'',
         Log ''Wrote new info.toml with updated version: 0.1.1'', Call CommitVersion, RepoOpen,
         Git (Add ''info.toml''), Git (Commit ''Version: 0.1.1''), Git (Tag ''0.1.1''),
         Log ''Committed version bump from 0.1.0 to 0.1.1'', Call Build,
         Popen ''./build.sh release'', Raised Build UnicodeDecodeError]\<rparr>)"
proof -
  have d: "decode_utf8 (stdout (build_sh bad_output_env)) = Inl UnicodeDecodeError"
    by (simp add: bad_output_env_def decode_bad)
  show ?thesis
    unfolding run_from_build [OF demo_reaches_build [OF bad_output_env_facts]]
    by (simp add: seq_def run_step_def emit_def build_plugin_raises [OF d])
qed

lemma bad_output_aborts:
  "(advance bad_output_env ''patch'' ^^ 6) (Start, demo_world) =
    (Aborted Build UnicodeDecodeError,
     \<lparr>manifest = Some ''name = Demo version = 0.1.1'',
      trace =
        [Call CheckRepo, RepoOpen, Call ReadVersion, PathExists, ReadText,
         LogRead (PStr ''Demo'') (PStr ''0.1.0''), Call Bump, Call WriteManifest, PathExists,
         ReadText, WriteText ''name = Demo version = 0.1.1'',
         Log ''Wrote new info.toml with updated version: 0.1.1'', Call CommitVersion, RepoOpen,
         Git (Add ''info.toml''), Git (Commit ''Version: 0.1.1''), Git (Tag ''0.1.1''),
         Log ''Committed version bump from 0.1.0 to 0.1.1'', Call Build,
         Popen ''./build.sh release'', Raised Build UnicodeDecodeError]\<rparr>)"
proof -
  have d: "decode_utf8 (stdout (build_sh bad_output_env)) = Inl UnicodeDecodeError"
    by (simp add: bad_output_env_def decode_bad)
  have "(advance bad_output_env ''patch'' ^^ 6) (Start, demo_world) =
        advance bad_output_env ''patch'' ((advance bad_output_env ''patch'' ^^ 5) (Start, demo_world))"
    by (simp add: eval_nat_numeral del: advance.simps)
  then show ?thesis
    unfolding demo_reaches_build [OF bad_output_env_facts]
    by (simp add: attempt_def run_step_def emit_def build_plugin_raises [OF d])
qed

theorem run_release_fail_fast_witness:
  "outcome ((advance demo_env ''patch'' ^^ 7) (Start, demo_world)) =
     Some (run_release demo_env ''patch'' demo_world) \<and>
   run_release demo_env ''patch'' demo_world =
    (Inr (),
     \<lparr>manifest = Some ''name = Demo version = 0.1.1'',
      trace =
        [Call CheckRepo, RepoOpen, Call ReadVersion, PathExists, ReadText,
         LogRead (PStr ''Demo'') (PStr ''0.1.0''), Call Bump, Call WriteManifest, PathExists,
         ReadText, WriteText ''name = Demo version = 0.1.1'',
         Log ''Wrote new info.toml with updated version: 0.1.1'', Call CommitVersion, RepoOpen,
         Git (Add ''info.toml''), Git (Commit ''Version: 0.1.1''), Git (Tag ''0.1.1''),
         Log ''Committed version bump from 0.1.0 to 0.1.1'', Call Build,
         Popen ''./build.sh release'', Log ''ok'',
         Log ''Built plugin: 0.1.1; return code: None'', Call CommitArtifacts, RepoOpen,
         Git (Add ''./*.op''), Git (Commit ''Release: 0.1.1''),
         Log ''Committed build for version: 0.1.1'']\<rparr>) \<and>
   marks_since demo_world (snd (run_release demo_env ''patch'' demo_world)) =
     [Call CheckRepo, Call ReadVersion, Call Bump, Call WriteManifest, Call CommitVersion,
      Call Build, Call CommitArtifacts] \<and>
   (advance bad_output_env ''patch'' ^^ 6) (Start, demo_world) =
    (Aborted Build UnicodeDecodeError,
     \<lparr>manifest = Some ''name = Demo version = 0.1.1'',
      trace =
        [Call CheckRepo, RepoOpen, Call ReadVersion, PathExists, ReadText,
         LogRead (PStr ''Demo'') (PStr ''0.1.0''), Call Bump, Call WriteManifest, PathExists,
         ReadText, WriteText ''name = Demo version = 0.1.1'',
         Log ''Wrote new info.toml with updated version: 0.1.1'', Call CommitVersion, RepoOpen,
         Git (Add ''info.toml''), Git (Commit ''Version: 0.1.1''), Git (Tag ''0.1.1''),
         Log ''Committed version bump from 0.1.0 to 0.1.1'', Call Build,
         Popen ''./build.sh release'', Raised Build UnicodeDecodeError]\<rparr>) \<and>
   run_release bad_output_env ''patch'' demo_world =
    (Inl UnicodeDecodeError,
     \<lparr>manifest = Some ''name = Demo version = 0.1.1'',
      trace =
        [Call CheckRepo, RepoOpen, Call ReadVersion, PathExists, ReadText,
         LogRead (PStr ''Demo'') (PStr ''0.1.0''), Call Bump, Call WriteManifest, PathExists,
         ReadText, WriteText ''name = Demo version = 0.1.1'',
         Log ''Wrote new info.toml with updated version: 0.1.1'', Call CommitVersion, RepoOpen,
         Git (Add ''info.toml''), Git (Commit ''Version: 0.1.1''), Git (Tag ''0.1.1''),
         Log ''Committed version bump from 0.1.0 to 0.1.1'', Call Build,
         Popen ''./build.sh release'', Raised Build UnicodeDecodeError]\<rparr>)"
proof -
  note good = run_release_fail_fast [of demo_env "''patch''" demo_world]
  note bad = run_release_fail_fast [of bad_output_env "''patch''" demo_world]
  from good have m: "outcome ((advance demo_env ''patch'' ^^ 7) (Start, demo_world)) =
     Some (run_release demo_env ''patch'' demo_world)"
    by blast
  from good demo_run [OF demo_env_facts]
  have "marks_since demo_world (snd (run_release demo_env ''patch'' demo_world)) =
        map Call release_order"
    by simp
  then have k: "marks_since demo_world (snd (run_release demo_env ''patch'' demo_world)) =
     [Call CheckRepo, Call ReadVersion, Call Bump, Call WriteManifest, Call CommitVersion,
      Call Build, Call CommitArtifacts]"
    by (simp add: release_order_def)
  from bad bad_output_aborts have b: "run_release bad_output_env ''patch'' demo_world =
    (Inl UnicodeDecodeError,
     \<lparr>manifest = Some ''name = Demo version = 0.1.1'',
      trace =
        [Call CheckRepo, RepoOpen, Call ReadVersion, PathExists, ReadText,
         LogRead (PStr ''Demo'') (PStr ''0.1.0''), Call Bump, Call WriteManifest, PathExists,
         ReadText, WriteText ''name = Demo version = 0.1.1'',
         Log ''Wrote new info.toml with updated version: 0.1.1'', Call CommitVersion, RepoOpen,
         Git (Add ''info.toml''), Git (Commit ''Version: 0.1.1''), Git (Tag ''0.1.1''),
         Log ''Committed version bump from 0.1.0 to 0.1.1'', Call Build,
         Popen ''./build.sh release'', Raised Build UnicodeDecodeError]\<rparr>)"
    by blast
  from m k b demo_run [OF demo_env_facts] bad_output_aborts show ?thesis
    by (simp only: simp_thms)
qed

theorem build_never_fails_on_text_witness:
  "decode_utf8 (stdout (build_sh demo_env)) = Inr ''ok'' \<and>
   exit_status (build_sh demo_env) = 1 \<and>
   returncode (build_sh demo_env) = None \<and>
   build_plugin demo_env (0, 1, 1) \<lparr>manifest = None, trace = []\<rparr> =
     (Inr (),
      \<lparr>manifest = None,
         trace = [Popen ''./build.sh release'', Log ''ok'',
                  Log ''Built plugin: 0.1.1; return code: None'']\<rparr>) \<and>
   (advance demo_env ''patch'' ^^ 5) (Start, demo_world) =
     (VersionCommitted (0, 1, 1),
      \<lparr>manifest = Some ''name = Demo version = 0.1.1'',
       trace =
         [Call CheckRepo, RepoOpen, Call ReadVersion, PathExists, ReadText,
          LogRead (PStr ''Demo'') (PStr ''0.1.0''), Call Bump, Call WriteManifest, PathExists,
          ReadText, WriteText ''name = Demo version = 0.1.1'',
          Log ''Wrote new info.toml with updated version: 0.1.1'', Call CommitVersion, RepoOpen,
          Git (Add ''info.toml''), Git (Commit ''Version: 0.1.1''), Git (Tag ''0.1.1''),
          Log ''Committed version bump from 0.1.0 to 0.1.1'']\<rparr>) \<and>
   run_release demo_env ''patch'' demo_world =
     run_step CommitArtifacts (git_commit_new_release demo_env (0, 1, 1))
      \<lparr>manifest = Some ''name = Demo version = 0.1.1'',
       trace =
         [Call CheckRepo, RepoOpen, Call ReadVersion, PathExists, ReadText,
          LogRead (PStr ''Demo'') (PStr ''0.1.0''), Call Bump, Call WriteManifest, PathExists,
          ReadText, WriteText ''name = Demo version = 0.1.1'',
          Log ''Wrote new info.toml with updated version: 0.1.1'', Call CommitVersion, RepoOpen,
          Git (Add ''info.toml''), Git (Commit ''Version: 0.1.1''), Git (Tag ''0.1.1''),
          Log ''Committed version bump from 0.1.0 to 0.1.1'', Call Build,
          Popen ''./build.sh release'', Log ''ok'', Log ''Built plugin: 0.1.1; return code: None'']\<rparr> \<and>
   decode_utf8 (stdout (build_sh bad_output_env)) = Inl UnicodeDecodeError \<and>
   exit_status (build_sh bad_output_env) = 0 \<and>
   (advance bad_output_env ''patch'' ^^ 5) (Start, demo_world) =
     (VersionCommitted (0, 1, 1),
      \<lparr>manifest = Some ''name = Demo version = 0.1.1'',
       trace =
         [Call CheckRepo, RepoOpen, Call ReadVersion, PathExists, ReadText,
          LogRead (PStr ''Demo'') (PStr ''0.1.0''), Call Bump, Call WriteManifest, PathExists,
          ReadText, WriteText ''name = Demo version = 0.1.1'',
          Log ''Wrote new info.toml with updated version: 0.1.1'', Call CommitVersion, RepoOpen,
          Git (Add ''info.toml''), Git (Commit ''Version: 0.1.1''), Git (Tag ''0.1.1''),
          Log ''Committed version bump from 0.1.0 to 0.1.1'']\<rparr>) \<and>
   run_release bad_output_env ''patch'' demo_world =
    (Inl UnicodeDecodeError,
     \<lparr>manifest = Some ''name = Demo version = 0.1.1'',
      trace =
        [Call CheckRepo, RepoOpen, Call ReadVersion, PathExists, ReadText,
         LogRead (PStr ''Demo'') (PStr ''0.1.0''), Call Bump, Call WriteManifest, PathExists,
         ReadText, WriteText ''name = Demo version = 0.1.1'',
         Log ''Wrote new info.toml with updated version: 0.1.1'', Call CommitVersion, RepoOpen,
         Git (Add ''info.toml''), Git (Commit ''Version: 0.1.1''), Git (Tag ''0.1.1''),
         Log ''Committed version bump from 0.1.0 to 0.1.1'', Call Build,
         Popen ''./build.sh release'', Raised Build UnicodeDecodeError]\<rparr>)"
proof -
  have d: "decode_utf8 (stdout (build_sh demo_env)) = Inr ''ok''"
    by (simp add: demo_env_def decode_ok)
  have rc: "returncode (build_sh demo_env) = None" "exit_status (build_sh demo_env) = 1"
    by (simp_all add: demo_env_def)
  have d': "decode_utf8 (stdout (build_sh bad_output_env)) = Inl UnicodeDecodeError"
    by (simp add: bad_output_env_def decode_bad)
  have rc': "exit_status (build_sh bad_output_env) = 0"
    by (simp add: bad_output_env_def)
  note reach = demo_reaches_build [OF demo_env_facts(1-4)]
  note reach' = demo_reaches_build [OF bad_output_env_facts]
  note good = build_never_fails_on_text [of demo_env "''ok''" "(0, 1, 1)"
      "\<lparr>manifest = None, trace = []\<rparr>" "''patch''" demo_world _ UnicodeDecodeError]
  note bad = build_never_fails_on_text [of bad_output_env "''ok''" "(0, 1, 1)"
      "\<lparr>manifest = None, trace = []\<rparr>" "''patch''" demo_world _ UnicodeDecodeError]
  from good d reach have g1: "build_plugin demo_env (0, 1, 1) \<lparr>manifest = None, trace = []\<rparr> =
     (Inr (),
      \<lparr>manifest = None,
         trace = [Popen ''./build.sh release'', Log ''ok'',
                  Log ''Built plugin: 0.1.1; return code: None'']\<rparr>)"
    by (simp add: rc version_to_str_011)
  from good d reach have g2: "run_release demo_env ''patch'' demo_world =
     run_step CommitArtifacts (git_commit_new_release demo_env (0, 1, 1))
      \<lparr>manifest = Some ''name = Demo version = 0.1.1'',
       trace =
         [Call CheckRepo, RepoOpen, Call ReadVersion, PathExists, ReadText,
          LogRead (PStr ''Demo'') (PStr ''0.1.0''), Call Bump, Call WriteManifest, PathExists,
          ReadText, WriteText ''name = Demo version = 0.1.1'',
          Log ''Wrote new info.toml with updated version: 0.1.1'', Call CommitVersion, RepoOpen,
          Git (Add ''info.toml''), Git (Commit ''Version: 0.1.1''), Git (Tag ''0.1.1''),
          Log ''Committed version bump from 0.1.0 to 0.1.1'', Call Build,
          Popen ''./build.sh release'', Log ''ok'', Log ''Built plugin: 0.1.1; return code: None'']\<rparr>"
    by (simp add: rc version_to_str_011)
  from bad d' reach' have b: "run_release bad_output_env ''patch'' demo_world =
    (Inl UnicodeDecodeError,
     \<lparr>manifest = Some ''name = Demo version = 0.1.1'',
      trace =
        [Call CheckRepo, RepoOpen, Call ReadVersion, PathExists, ReadText,
         LogRead (PStr ''Demo'') (PStr ''0.1.0''), Call Bump, Call WriteManifest, PathExists,
         ReadText, WriteText ''name = Demo version = 0.1.1'',
         Log ''Wrote new info.toml with updated version: 0.1.1'', Call CommitVersion, RepoOpen,
         Git (Add ''info.toml''), Git (Commit ''Version: 0.1.1''), Git (Tag ''0.1.1''),
         Log ''Committed version bump from 0.1.0 to 0.1.1'', Call Build,
         Popen ''./build.sh release'', Raised Build UnicodeDecodeError]\<rparr>)"
    by simp
  from d rc g1 reach g2 d' rc' reach' b show ?thesis
    by (simp only: simp_thms)
qed

text \<open>
  The build step can fail the release: the invoker decodes the output of the process
  as UTF-8, and an output that is not UTF-8 raises there, whatever the exit status. The
  run then ends in the build step, after the version has been committed and tagged, and
  the artifacts are not committed.
\<close>

theorem build_fails_on_bad_output_counterexample:
  "exit_status (build_sh bad_output_env) = 0 \<and>
   stdout (build_sh bad_output_env) = [CHR 0xFF] \<and>
   build_plugin bad_output_env (0, 1, 1) \<lparr>manifest = None, trace = []\<rparr> =
     (Inl UnicodeDecodeError, \<lparr>manifest = None, trace = [Popen ''./build.sh release'']\<rparr>) \<and>
   run_release bad_output_env ''patch'' demo_world =
    (Inl UnicodeDecodeError,
     \<lparr>manifest = Some ''name = Demo version = 0.1.1'',
      trace =
        [Call CheckRepo, RepoOpen, Call ReadVersion, PathExists, ReadText,
         LogRead (PStr ''Demo'') (PStr ''0.1.0''), Call Bump, Call WriteManifest, PathExists,
         ReadText, WriteText ''name = Demo version = 0.1.1'',
         Log ''Wrote new info.toml with updated version: 0.1.1'', Call CommitVersion, RepoOpen,
         Git (Add ''info.toml''), Git (Commit ''Version: 0.1.1''), Git (Tag ''0.1.1''),
         Log ''Committed version bump from 0.1.0 to 0.1.1'', Call Build,
         Popen ''./build.sh release'', Raised Build UnicodeDecodeError]\<rparr>) \<and>
   Call CommitArtifacts \<notin> set (trace (snd (run_release bad_output_env ''patch'' demo_world)))"
proof -
  have d: "decode_utf8 (stdout (build_sh bad_output_env)) = Inl UnicodeDecodeError"
    by (simp add: bad_output_env_def decode_bad)
  have "build_plugin bad_output_env (0, 1, 1) \<lparr>manifest = None, trace = []\<rparr> =
     (Inl UnicodeDecodeError, \<lparr>manifest = None, trace = [Popen ''./build.sh release'']\<rparr>)"
    by (simp add: build_plugin_raises [OF d])
  then show ?thesis
    by (simp add: bad_output_run) (simp add: bad_output_env_def)
qed



theorem read_requires_name_witness:
  "manifest demo_world = Some ''name = Demo version = 0.1.0'' \<and>
   toml_load nameless_env ''name = Demo version = 0.1.0'' =
     Inr (PDict [(''meta'', PDict [(''version'', PStr ''0.1.0'')])]) \<and>
   meta_entry (PDict [(''meta'', PDict [(''version'', PStr ''0.1.0'')])]) ''name'' = None \<and>
   meta_entry (PDict [(''meta'', PDict [(''version'', PStr ''0.1.0'')])]) ''version'' =
     Some (PStr ''0.1.0'') \<and>
   version_from_str ''0.1.0'' = Inr (0, 1, 0) \<and>
   read_info_toml_version nameless_env demo_world =
     (Inl (KeyError ''name''),
      \<lparr>manifest = Some ''name = Demo version = 0.1.0'', trace = [PathExists, ReadText]\<rparr>) \<and>
   run_release nameless_env ''patch'' demo_world =
     (Inl (KeyError ''name''),
      \<lparr>manifest = Some ''name = Demo version = 0.1.0'',
         trace = [Call CheckRepo, RepoOpen, Call ReadVersion, PathExists, ReadText,
                  Raised ReadVersion (KeyError ''name'')]\<rparr>)"
proof -
  have m: "manifest demo_world = Some ''name = Demo version = 0.1.0''"
    by (simp add: demo_world_def)
  have l: "toml_load nameless_env ''name = Demo version = 0.1.0'' =
     Inr (PDict [(''meta'', PDict [(''version'', PStr ''0.1.0'')])])"
    by (simp add: nameless_env_def)
  have n: "meta_entry (PDict [(''meta'', PDict [(''version'', PStr ''0.1.0'')])]) ''name'' = None"
    by (simp add: meta_entry_def)
  have v: "meta_entry (PDict [(''meta'', PDict [(''version'', PStr ''0.1.0'')])]) ''version'' =
     Some (PStr ''0.1.0'')"
    by (simp add: meta_entry_def)
  have repo: "workdir nameless_env = GitDir (Repo False 3)"
    by (simp add: nameless_env_def demo_env_def)
  from read_requires_name [OF m l n, of "''patch''"] obtain e where
    e: "meta_entry (PDict [(''meta'', PDict [(''version'', PStr ''0.1.0'')])]) ''version'' \<noteq> None
        \<longrightarrow> e = KeyError ''name''"
    and rd: "read_info_toml_version nameless_env demo_world =
        (Inl e, demo_world\<lparr>trace := trace demo_world @ [PathExists, ReadText]\<rparr>)"
    and run: "run_release nameless_env ''patch'' demo_world =
              (Inl e, demo_world\<lparr>trace := trace demo_world @
                 [Call CheckRepo, RepoOpen, Call ReadVersion, PathExists, ReadText,
                  Raised ReadVersion e]\<rparr>) \<or>
            (\<exists>e'. run_release nameless_env ''patch'' demo_world =
              (Inl e', demo_world\<lparr>trace := trace demo_world @
                 [Call CheckRepo, RepoOpen, Raised CheckRepo e']\<rparr>))"
    by blast
  from e v have e': "e = KeyError ''name''"
    by simp
  from read_without_name [OF l n] v obtain e2 where
    e2: "e2 = KeyError ''name''"
    and rd2: "\<And>w. manifest w = Some ''name = Demo version = 0.1.0'' \<Longrightarrow>
      read_info_toml_version nameless_env w = (Inl e2, w\<lparr>trace := trace w @ [PathExists, ReadText]\<rparr>)"
    by auto
  have "read_info_toml_version nameless_env
          (demo_world\<lparr>trace := trace demo_world @ [Call CheckRepo, RepoOpen, Call ReadVersion]\<rparr>) =
        (Inl (KeyError ''name''),
         demo_world\<lparr>trace := trace demo_world @ [Call CheckRepo, RepoOpen, Call ReadVersion] @
                                       [PathExists, ReadText]\<rparr>)"
    using rd2 [of "demo_world\<lparr>trace := trace demo_world @ [Call CheckRepo, RepoOpen, Call ReadVersion]\<rparr>"]
      m e2
    by simp
  from run_release_read_raises [OF repo _ this, of "''patch''"]
  have "run_release nameless_env ''patch'' demo_world =
              (Inl (KeyError ''name''), demo_world\<lparr>trace := trace demo_world @
                 [Call CheckRepo, RepoOpen, Call ReadVersion, PathExists, ReadText,
                  Raised ReadVersion (KeyError ''name'')]\<rparr>)"
    by simp
  with m l n v rd e' show ?thesis
    by (simp add: demo_world_def version_from_str_010)
qed


end
